theory Spec2Isabelle
  imports Main "HOL-Library.Multiset" "HOL-Library.Sublist"
begin

section \<open>The header generator of the blog: \<^verbatim>\<open>scripts/make_header.py\<close>\<close>

text \<open>
  The script lists the dated posts of a directory, reads a title out of each post,
  computes how many days ago each post was published, keeps the recent ones in
  ascending order of their day offset, and hands titles and offsets to a renderer
  that draws a histogram with a callout.

  Conventions of the embedding.
  \<^item> A Python \<open>str\<close> is a \<open>string\<close>; a character is its code point, so the model
    covers text whose code points are below 256.
  \<^item> Python's unbounded \<open>int\<close> is \<open>int\<close>; a count or a length is \<open>nat\<close>.
  \<^item> Every exception the script can raise is a value of \<open>py_error\<close>; a function
    that can raise returns \<open>py_error + 'a\<close>, with \<open>Inl\<close> for the exception.
  \<^item> The file system is an explicit argument: a directory listing per directory
    path and a decoded text per file path. The clock is an explicit argument too.
  \<^item> Of the figure that \<^verbatim>\<open>line_plot\<close> builds, the model keeps the data the script
    computes with integers and strings: the plotted line, the tick positions, the
    annotation texts with the points they mark, the callout and the mood. Styling
    and the vertical layout coordinates, which are binary floating point, are left
    out.
\<close>

subsection \<open>Exceptions\<close>

datatype py_error = ValueError | AttributeError | IndexError | OSError

subsection \<open>Strings\<close>

definition digits :: string where
  "digits = ''0123456789''"

definition nonzero :: string where
  "nonzero = ''123456789''"

definition is_digit :: "char \<Rightarrow> bool" where
  "is_digit c = (c \<in> set digits)"

definition digit_val :: "char \<Rightarrow> nat" where
  "digit_val c = of_char c - 48"

definition digit_char :: "nat \<Rightarrow> char" where
  "digit_char n = digits ! n"

text \<open>
  \<^verbatim>\<open>str.isspace\<close> on the code points below 256: tab, line feed, vertical tab, form
  feed, carriage return, the four separators 28 to 31, space, next line (133) and
  no-break space (160).
\<close>

definition is_space :: "char \<Rightarrow> bool" where
  "is_space c = ((of_char c :: nat) \<in> {9, 10, 11, 12, 13, 28, 29, 30, 31, 32, 133, 160})"

text \<open>\<^verbatim>\<open>s.strip()\<close>: whitespace is removed at both ends.\<close>

definition strip :: "string \<Rightarrow> string" where
  "strip s = rev (dropWhile is_space (rev (dropWhile is_space s)))"

text \<open>\<^verbatim>\<open>sub in s\<close>: \<open>sub\<close> occurs in \<open>s\<close> as a contiguous substring.\<close>

fun py_in :: "string \<Rightarrow> string \<Rightarrow> bool" where
  "py_in sub [] = (sub = [])"
| "py_in sub (c # cs) = (prefix sub (c # cs) \<or> py_in sub cs)"

text \<open>
  \<^verbatim>\<open>re.sub(pat, repl, s)\<close> for a pattern and a replacement without special
  characters: the text is scanned from the left; where the pattern matches, the
  replacement is emitted and the scan goes on behind the match; elsewhere one
  character is copied. (The empty pattern matches between all characters.)
\<close>

function re_sub :: "string \<Rightarrow> string \<Rightarrow> string \<Rightarrow> string" where
  "re_sub pat repl s =
     (if pat = [] then repl @ concat (map (\<lambda>c. c # repl) s)
      else if s = [] then []
      else if prefix pat s then repl @ re_sub pat repl (drop (length pat) s)
      else hd s # re_sub pat repl (tl s))"
  by pat_completeness auto
termination
  by (relation "measure (\<lambda>(pat, repl, s). length s)") auto

declare re_sub.simps [simp del]

text \<open>\<^verbatim>\<open>str(i)\<close> for an integer: decimal digits, with a minus sign when negative.\<close>

fun str_nat :: "nat \<Rightarrow> string" where
  "str_nat n = (if n < 10 then [digit_char n] else str_nat (n div 10) @ [digit_char (n mod 10)])"

declare str_nat.simps [simp del]

definition py_str :: "int \<Rightarrow> string" where
  "py_str i = (if i < 0 then CHR ''-'' # str_nat (nat (- i)) else str_nat (nat i))"

text \<open>
  \<^verbatim>\<open>int(s)\<close> for a string: surrounding whitespace is dropped, one sign is allowed,
  and what follows must be decimal digits, where single underscores may stand
  between digits. Anything else raises \<^verbatim>\<open>ValueError\<close>.
\<close>

definition digits_val :: "string \<Rightarrow> nat" where
  "digits_val ds = foldl (\<lambda>acc c. 10 * acc + digit_val c) 0 ds"

definition int_literal :: "string \<Rightarrow> bool" where
  "int_literal body =
     (body \<noteq> [] \<and> is_digit (hd body) \<and> is_digit (last body)
      \<and> list_all (\<lambda>c. is_digit c \<or> c = CHR ''_'') body \<and> \<not> py_in ''__'' body)"

definition py_int :: "string \<Rightarrow> py_error + int" where
  "py_int s =
     (let t = strip s;
          (sign, body) =
            (case t of
               [] \<Rightarrow> (1, [])
             | c # r \<Rightarrow> if c = CHR ''+'' then (1, r) else if c = CHR ''-'' then (- 1, r) else (1, t))
      in if int_literal body then Inr (sign * int (digits_val (filter is_digit body)))
         else Inl ValueError)"

text \<open>\<^verbatim>\<open>sep.join(xs)\<close>.\<close>

fun py_join :: "string \<Rightarrow> string list \<Rightarrow> string" where
  "py_join sep [] = []"
| "py_join sep [x] = x"
| "py_join sep (x # y # rest) = x @ sep @ py_join sep (y # rest)"

subsection \<open>Regular expressions over character classes\<close>

text \<open>
  Both regular expressions of the program, the one of \<^verbatim>\<open>date_match\<close> and the one
  \<^verbatim>\<open>strptime\<close> builds from its format, are sequences of alternatives, each
  alternative a sequence of character classes. A class is the string of its
  characters. \<open>match_classes\<close> matches one sequence of classes at the start of the
  text and returns the matched text and the rest; \<open>alts\<close> lists the matches of the
  alternatives in the order the backtracking matcher tries them.
\<close>

fun match_classes :: "string list \<Rightarrow> string \<Rightarrow> (string \<times> string) option" where
  "match_classes [] s = Some ([], s)"
| "match_classes (cl # cls) [] = None"
| "match_classes (cl # cls) (c # cs) =
     (if c \<in> set cl
      then (case match_classes cls cs of None \<Rightarrow> None | Some (m, r) \<Rightarrow> Some (c # m, r))
      else None)"

definition alts :: "string list list \<Rightarrow> string \<Rightarrow> (string \<times> string) list" where
  "alts as s = List.map_filter (\<lambda>a. match_classes a s) as"

subsection \<open>\<^verbatim>\<open>date_match\<close> and \<^verbatim>\<open>list_posts\<close>\<close>

text \<open>
  \<^verbatim>\<open>re.match(r'\d{4}-\d{2}-\d{2}', date_str)\<close> matches at the start of the string.
  The result is \<open>None\<close> or the matched text, which is what \<^verbatim>\<open>.group()\<close> reads.
\<close>

definition date_match :: "string \<Rightarrow> string option" where
  "date_match date_str =
     map_option fst
       (match_classes [digits, digits, digits, digits, ''-'', digits, digits, ''-'', digits, digits]
          date_str)"

record filesystem =
  dirs :: "string \<rightharpoonup> string list"
  files :: "string \<rightharpoonup> string"

text \<open>
  \<^verbatim>\<open>os.listdir\<close> raises an \<^verbatim>\<open>OSError\<close> when the path is not a readable directory. A
  match object is true, \<open>None\<close> is false.
\<close>

definition list_posts :: "filesystem \<Rightarrow> string \<Rightarrow> py_error + string list" where
  "list_posts fs post_path =
     (case dirs fs post_path of
        None \<Rightarrow> Inl OSError
      | Some post_list \<Rightarrow> Inr (filter (\<lambda>post. date_match post \<noteq> None) post_list))"

subsection \<open>\<^verbatim>\<open>extract_dates\<close> and \<^verbatim>\<open>timedelta_dates\<close>\<close>

record datetime =
  year :: nat
  month :: nat
  day :: nat
  hour :: nat
  minute :: nat
  second :: nat
  microsecond :: nat

definition is_leap :: "nat \<Rightarrow> bool" where
  "is_leap y = (y mod 4 = 0 \<and> (y mod 100 \<noteq> 0 \<or> y mod 400 = 0))"

definition days_in_month :: "nat \<Rightarrow> nat \<Rightarrow> nat" where
  "days_in_month y m =
     (if m = 2 \<and> is_leap y then 29
      else [0, 31, 28, 31, 30, 31, 30, 31, 31, 30, 31, 30, 31] ! m)"

text \<open>The check of the \<^verbatim>\<open>date\<close> constructor.\<close>

definition valid_date :: "nat \<Rightarrow> nat \<Rightarrow> nat \<Rightarrow> bool" where
  "valid_date y m d =
     (1 \<le> y \<and> y \<le> 9999 \<and> 1 \<le> m \<and> m \<le> 12 \<and> 1 \<le> d \<and> d \<le> days_in_month y m)"

text \<open>
  The regular expression that \<^verbatim>\<open>strptime\<close> builds for the format \<^verbatim>\<open>%Y-%m-%d\<close>:
  \<^verbatim>\<open>(?P<Y>\d\d\d\d)-(?P<m>1[0-2]|0[1-9]|[1-9])-(?P<d>3[0-1]|[1-2]\d|0[1-9]|[1-9]| [1-9])\<close>.
  The result lists the matches in the order of the backtracking search, each with
  its three groups and the text behind the match; the matcher returns the first.
\<close>

definition ymd_regex :: "string \<Rightarrow> (string \<times> string \<times> string \<times> string) list" where
  "ymd_regex s =
     [(Y, m, d, r5).
        (Y, r1) \<leftarrow> alts [ [digits, digits, digits, digits] ] s,
        (h1, r2) \<leftarrow> alts [ [''-''] ] r1,
        (m, r3) \<leftarrow> alts [ [''1'', ''012''], [''0'', nonzero], [nonzero] ] r2,
        (h2, r4) \<leftarrow> alts [ [''-''] ] r3,
        (d, r5) \<leftarrow> alts [ [''3'', ''01''], [''12'', digits], [''0'', nonzero], [nonzero],
                          ['' '', nonzero] ] r4]"

text \<open>
  \<^verbatim>\<open>dt.datetime.strptime(data_string, '%Y-%m-%d')\<close>: \<^verbatim>\<open>ValueError\<close> when the
  expression does not match, when text remains behind the match, and when the
  numbers are not a date; otherwise midnight of that date.
\<close>

definition strptime_ymd :: "string \<Rightarrow> py_error + datetime" where
  "strptime_ymd data_string =
     (case ymd_regex data_string of
        [] \<Rightarrow> Inl ValueError
      | (Y, m, d, rest) # _ \<Rightarrow>
          if rest \<noteq> [] then Inl ValueError
          else (case (py_int Y, py_int m, py_int d) of
                  (Inr y, Inr mo, Inr dd) \<Rightarrow>
                    if valid_date (nat y) (nat mo) (nat dd)
                    then Inr \<lparr>year = nat y, month = nat mo, day = nat dd,
                              hour = 0, minute = 0, second = 0, microsecond = 0\<rparr>
                    else Inl ValueError
                | _ \<Rightarrow> Inl ValueError))"

text \<open>
  The comprehension of line 46 works through the posts in order; the first post
  that fails ends it. \<^verbatim>\<open>date_match(post).group()\<close> on a post without a date is an
  attribute access on \<open>None\<close>.
\<close>

fun extract_dates :: "string list \<Rightarrow> py_error + datetime list" where
  "extract_dates [] = Inr []"
| "extract_dates (post # post_list) =
     (case date_match post of
        None \<Rightarrow> Inl AttributeError
      | Some g \<Rightarrow>
          (case strptime_ymd g of
             Inl e \<Rightarrow> Inl e
           | Inr d \<Rightarrow>
               (case extract_dates post_list of
                  Inl e \<Rightarrow> Inl e
                | Inr dts \<Rightarrow> Inr (d # dts))))"

text \<open>
  \<^verbatim>\<open>(date - compare_date).days\<close>. The difference of two datetimes is normalised so
  that its seconds and microseconds are not negative; its days are therefore the
  difference in microseconds divided by the microseconds of a day, rounded down.
\<close>

definition days_before_year :: "nat \<Rightarrow> int" where
  "days_before_year y =
     (let y1 = int y - 1 in y1 * 365 + y1 div 4 - y1 div 100 + y1 div 400)"

definition days_before_month :: "nat \<Rightarrow> nat \<Rightarrow> int" where
  "days_before_month y m = (\<Sum>k \<leftarrow> [1..<m]. int (days_in_month y k))"

definition toordinal :: "datetime \<Rightarrow> int" where
  "toordinal d = days_before_year (year d) + days_before_month (year d) (month d) + int (day d)"

definition timedelta_days :: "datetime \<Rightarrow> datetime \<Rightarrow> int" where
  "timedelta_days a b =
     (let days = toordinal a - toordinal b;
          seconds = (int (second a) + int (minute a) * 60 + int (hour a) * 3600)
                  - (int (second b) + int (minute b) * 60 + int (hour b) * 3600);
          microseconds = int (microsecond a) - int (microsecond b)
      in (days * 86400 * 1000000 + seconds * 1000000 + microseconds) div (86400 * 1000000))"

text \<open>
  The default of \<^verbatim>\<open>compare_date\<close> is the clock read when the function is defined;
  here it is a parameter.
\<close>

definition timedelta_dates :: "datetime list \<Rightarrow> datetime \<Rightarrow> int list" where
  "timedelta_dates date_list compare_date =
     map (\<lambda>date. timedelta_days date compare_date) date_list"

subsection \<open>\<^verbatim>\<open>extract_title\<close> and \<^verbatim>\<open>extract_titles\<close>\<close>

definition os_path_join :: "string \<Rightarrow> string \<Rightarrow> string" where
  "os_path_join a b =
     (if prefix ''/'' b then b
      else if a = [] \<or> suffix ''/'' a then a @ b
      else a @ ''/'' @ b)"

text \<open>
  \<^verbatim>\<open>f.readline()\<close> on the text that is still unread: the line up to and including
  its line feed and the text behind it. At the end of the file the line is empty.
  The text of a file is what reading in text mode delivers: decoded, with every
  line end translated to a line feed.
\<close>

fun readline :: "string \<Rightarrow> string \<times> string" where
  "readline [] = ([], [])"
| "readline (c # cs) =
     (if c = CHR 0x0A then ([c], cs)
      else (case readline cs of (line, rest) \<Rightarrow> (c # line, rest)))"

text \<open>
  The loop of lines 90 to 94, entered with the first line read, \<^verbatim>\<open>cnt\<close> and the
  unread text \<open>f\<close>. It returns the value of \<^verbatim>\<open>line\<close> when the loop is left.
\<close>

function title_loop :: "string \<Rightarrow> nat \<Rightarrow> string \<Rightarrow> string" where
  "title_loop line cnt f =
     (if line \<noteq> []
      then (if py_in ''title:'' line \<or> cnt > 10 then line
            else title_loop (fst (readline f)) (cnt + 1) (snd (readline f)))
      else line)"
  by pat_completeness auto
termination
  by (relation "measure (\<lambda>(line, cnt, f). 11 - cnt)") auto

declare title_loop.simps [simp del]

text \<open>\<^verbatim>\<open>open\<close> raises an \<^verbatim>\<open>OSError\<close> when there is no such file to read.\<close>

definition extract_title :: "filesystem \<Rightarrow> string \<Rightarrow> string \<Rightarrow> py_error + string" where
  "extract_title fs post base_dir =
     (case files fs (os_path_join base_dir post) of
        None \<Rightarrow> Inl OSError
      | Some f \<Rightarrow>
          (let line = title_loop (fst (readline f)) 0 (snd (readline f));
               line = (if \<not> py_in ''title:'' line then ''UH OH!'' else line)
           in Inr (re_sub ''title: '' [] (strip line))))"

fun extract_titles :: "filesystem \<Rightarrow> string list \<Rightarrow> py_error + string list" where
  "extract_titles fs [] = Inr []"
| "extract_titles fs (post # post_list) =
     (case extract_title fs post ''_posts/'' of
        Inl e \<Rightarrow> Inl e
      | Inr title \<Rightarrow>
          (case extract_titles fs post_list of
             Inl e \<Rightarrow> Inl e
           | Inr post_titles \<Rightarrow> Inr (title # post_titles)))"

subsection \<open>\<^verbatim>\<open>filter_titles\<close>\<close>

text \<open>
  The loop of lines 112 to 116. The two accumulators are the lists
  \<^verbatim>\<open>filtered_titles\<close> and \<^verbatim>\<open>filtered_deltas\<close>; \<^verbatim>\<open>append\<close> adds at the end. The first
  argument is \<^verbatim>\<open>zip(post_titles, deltas)\<close>.
\<close>

fun filter_loop ::
  "(string \<times> int) list \<Rightarrow> int \<Rightarrow> string list \<times> int list \<Rightarrow> string list \<times> int list"
where
  "filter_loop [] cutoff acc = acc"
| "filter_loop ((title, delta) # rest) cutoff (filtered_titles, filtered_deltas) =
     (if delta > cutoff
      then filter_loop rest cutoff (filtered_titles @ [title], filtered_deltas @ [delta + 1])
      else filter_loop rest cutoff (filtered_titles, filtered_deltas))"

text \<open>
  \<^verbatim>\<open>zip(*sorted_pairs)\<close> followed by the list comprehension of line 119 and the
  unpacking into two names. On a non-empty list of pairs \<^verbatim>\<open>zip(*...)\<close> yields exactly
  two tuples, the first components and the second components. On the empty list it
  is \<^verbatim>\<open>zip()\<close>, which yields nothing, so the comprehension is \<^verbatim>\<open>[]\<close> and unpacking it
  into two names raises \<^verbatim>\<open>ValueError\<close>.
\<close>

definition unzip_pairs :: "('a \<times> 'b) list \<Rightarrow> py_error + ('a list \<times> 'b list)" where
  "unzip_pairs sorted_pairs =
     (if sorted_pairs = [] then Inl ValueError
      else Inr (map fst sorted_pairs, map snd sorted_pairs))"

text \<open>
  \<^verbatim>\<open>sorted(..., key=lambda x: x[1])\<close> is a stable sort on the second component. The
  result of a stable sort is determined by its input, so it is \<^const>\<open>sort_key\<close>
  (a stable insertion sort) on \<^const>\<open>snd\<close>.
\<close>

definition filter_titles ::
  "string list \<Rightarrow> int list \<Rightarrow> int \<Rightarrow> py_error + (string list \<times> int list)"
where
  "filter_titles post_titles deltas cutoff =
     (case filter_loop (zip post_titles deltas) cutoff ([], []) of
        (filtered_titles, filtered_deltas) \<Rightarrow>
          unzip_pairs (sort_key snd (zip filtered_titles filtered_deltas)))"

text \<open>
  The posts the specification says are kept, with the offset it says is stored:
  those whose raw day difference is not \<open>\<le> cutoff\<close>, each with its raw day
  difference plus one, in input order.
\<close>

definition kept_pairs :: "string list \<Rightarrow> int list \<Rightarrow> int \<Rightarrow> (string \<times> int) list" where
  "kept_pairs post_titles deltas cutoff =
     map (\<lambda>(title, raw). (title, raw + 1))
       (filter (\<lambda>(title, raw). \<not> raw \<le> cutoff) (zip post_titles deltas))"

subsection \<open>\<^verbatim>\<open>line_plot\<close>\<close>

text \<open>
  A \<^verbatim>\<open>Counter\<close> is a dictionary in insertion order: an association list with one
  entry per distinct element, in order of first occurrence. Reading a key that is
  absent gives 0 and adds nothing.
\<close>

fun counter_add :: "int \<Rightarrow> (int \<times> nat) list \<Rightarrow> (int \<times> nat) list" where
  "counter_add x [] = [(x, 1)]"
| "counter_add x ((k, n) # rest) =
     (if k = x then (k, n + 1) # rest else (k, n) # counter_add x rest)"

definition Counter :: "int list \<Rightarrow> (int \<times> nat) list" where
  "Counter xs = foldl (\<lambda>c x. counter_add x c) [] xs"

definition counter_get :: "(int \<times> nat) list \<Rightarrow> int \<Rightarrow> nat" where
  "counter_get c x = (case map_of c x of None \<Rightarrow> 0 | Some n \<Rightarrow> n)"

text \<open>\<^verbatim>\<open>max\<close> of a list raises \<^verbatim>\<open>ValueError\<close> on the empty list.\<close>

definition py_max :: "nat list \<Rightarrow> py_error + nat" where
  "py_max ys = (case ys of [] \<Rightarrow> Inl ValueError | y # rest \<Rightarrow> Inr (foldl max y rest))"

text \<open>
  The loop of lines 156 to 161. \<^verbatim>\<open>titles_arr[deltas_arr == x]\<close> selects the titles
  at the positions where the offset is \<open>x\<close>; a mask whose length differs from the
  length of the array raises \<^verbatim>\<open>IndexError\<close>. An annotation is its text and the
  point \<^verbatim>\<open>xy\<close> it marks.
\<close>

fun annotate ::
  "string list \<Rightarrow> int list \<Rightarrow> (int \<times> nat) list \<Rightarrow> py_error + (string \<times> int \<times> nat) list"
where
  "annotate titles_arr deltas_arr [] = Inr []"
| "annotate titles_arr deltas_arr ((x, count') # items) =
     (if length titles_arr \<noteq> length deltas_arr then Inl IndexError
      else (case annotate titles_arr deltas_arr items of
              Inl e \<Rightarrow> Inl e
            | Inr rest \<Rightarrow>
                Inr ((py_join ''\<newline>+\<newline>''
                        (map fst (filter (\<lambda>(t, d). d = x) (zip titles_arr deltas_arr))),
                      x, count') # rest)))"

record chart =
  line_x :: "int list"
  line_y :: "nat list"
  yticks :: "nat list"
  annotations :: "(string \<times> int \<times> nat) list"
  callout :: string
  mood :: string

text \<open>
  \<^verbatim>\<open>range(cutoff, 0, 1)\<close> is \<open>[cutoff..- 1]\<close>. The callout is \<^verbatim>\<open>last_post_days\<close>, the
  mood is \<^verbatim>\<open>exclam\<close>, whose text includes the quotation marks.
\<close>

definition line_plot :: "string list \<Rightarrow> int list \<Rightarrow> int \<Rightarrow> py_error + chart" where
  "line_plot post_titles deltas cutoff =
     (let x_vals = [cutoff..- 1];
          y_counts = Counter deltas;
          y_vals = map (counter_get y_counts) x_vals
      in case py_max y_vals of
           Inl e \<Rightarrow> Inl e
         | Inr max_y_val \<Rightarrow>
             (case annotate post_titles deltas y_counts of
                Inl e \<Rightarrow> Inl e
              | Inr notes \<Rightarrow>
                  (let last_post_days =
                         (if length deltas > 0 then py_str (abs (last deltas))
                          else ''+'' @ py_str (abs cutoff))
                   in case py_int last_post_days of
                        Inl e \<Rightarrow> Inl e
                      | Inr days \<Rightarrow>
                          Inr \<lparr>line_x = x_vals, line_y = y_vals,
                                yticks = [0..<max_y_val + 1],
                                annotations = notes,
                                callout = last_post_days,
                                mood = (if days < 14 then ''\"Nice!\"'' else ''\"UH OH!\"'')\<rparr>)))"

subsection \<open>The run\<close>

text \<open>
  The block of lines 178 to 190, with the default arguments written out. The
  result is the list of lines printed and either the exception that ended the run
  or the chart handed to \<^verbatim>\<open>savefig\<close>.
\<close>

definition main :: "filesystem \<Rightarrow> datetime \<Rightarrow> string list \<times> (py_error + chart)" where
  "main fs today =
     (case list_posts fs ''_posts/'' of
        Inl e \<Rightarrow> ([], Inl e)
      | Inr posts \<Rightarrow>
          (let out1 = [py_str (int (length posts)) @ '' Posts found!''] in
           case extract_dates posts of
             Inl e \<Rightarrow> (out1, Inl e)
           | Inr dates \<Rightarrow>
               (let timedeltas = timedelta_dates dates today in
                case extract_titles fs posts of
                  Inl e \<Rightarrow> (out1, Inl e)
                | Inr titles \<Rightarrow>
                    (case filter_titles titles timedeltas (- 30) of
                       Inl e \<Rightarrow> (out1, Inl e)
                     | Inr (titles', timedeltas') \<Rightarrow>
                         (let out2 = out1 @ [py_str (int (length titles')) @ '' Posts after filtering'',
                                             ''Making plot...'']
                          in case line_plot titles' timedeltas' (- 30) of
                               Inl e \<Rightarrow> (out2, Inl e)
                             | Inr fig \<Rightarrow> (out2 @ [''Saving plot...'', ''Done''], Inr fig))))))"

subsection \<open>Notions of the specification\<close>

text \<open>
  The specification speaks of names whose first ten characters are a date written
  \<^verbatim>\<open>YYYY-MM-DD\<close>: four digits, a hyphen, two digits, a hyphen, two digits.
\<close>

definition ymd_pattern :: "string \<Rightarrow> bool" where
  "ymd_pattern p =
     (length p = 10
      \<and> is_digit (p ! 0) \<and> is_digit (p ! 1) \<and> is_digit (p ! 2) \<and> is_digit (p ! 3)
      \<and> p ! 4 = CHR ''-''
      \<and> is_digit (p ! 5) \<and> is_digit (p ! 6)
      \<and> p ! 7 = CHR ''-''
      \<and> is_digit (p ! 8) \<and> is_digit (p ! 9))"

definition has_date_prefix :: "string \<Rightarrow> bool" where
  "has_date_prefix name = ymd_pattern (take 10 name)"

text \<open>
  It speaks of formatting a date back as \<^verbatim>\<open>YYYY-MM-DD\<close>: the year in four digits,
  the month and the day in two, padded with zeros, with hyphens between them.
\<close>

definition zero_pad :: "nat \<Rightarrow> nat \<Rightarrow> string" where
  "zero_pad w n = replicate (w - length (str_nat n)) (CHR ''0'') @ str_nat n"

definition format_ymd :: "datetime \<Rightarrow> string" where
  "format_ymd d = zero_pad 4 (year d) @ ''-'' @ zero_pad 2 (month d) @ ''-'' @ zero_pad 2 (day d)"

text \<open>
  The first ten characters are a calendar date when they have that shape and the
  three numbers are a date of the calendar, years counting from 1.
\<close>

definition valid_ymd_prefix :: "string \<Rightarrow> bool" where
  "valid_ymd_prefix name =
     (has_date_prefix name
      \<and> valid_date (digits_val (take 4 name)) (digits_val (take 2 (drop 5 name)))
           (digits_val (take 2 (drop 8 name))))"

text \<open>
  The lines of a text, each with its line feed; the last line may lack one. The
  specification counts the lines of a post with it.
\<close>

fun split_lines :: "string \<Rightarrow> string list" where
  "split_lines [] = []"
| "split_lines (c # cs) =
     (if c = CHR 0x0A then [c] # split_lines cs
      else (case split_lines cs of [] \<Rightarrow> [ [c] ] | line # rest \<Rightarrow> (c # line) # rest))"

text \<open>
  The specification's reading of a title line: what follows the first \<^verbatim>\<open>title:\<close> on
  the line, with whitespace trimmed.
\<close>

fun after_marker :: "string \<Rightarrow> string \<Rightarrow> string" where
  "after_marker marker [] = []"
| "after_marker marker (c # cs) =
     (if prefix marker (c # cs) then drop (length marker) (c # cs) else after_marker marker cs)"

definition marker_stripped :: "string \<Rightarrow> string" where
  "marker_stripped line = strip (after_marker ''title:'' line)"

section \<open>Properties\<close>

subsection \<open>Filtering and sorting\<close>

lemma filter_loop_acc:
  "length ft = length fd \<Longrightarrow>
   filter_loop ps cutoff (ft, fd) =
     (ft @ map fst (map (\<lambda>(title, raw). (title, raw + 1)) (filter (\<lambda>(title, raw). \<not> raw \<le> cutoff) ps)),
      fd @ map snd (map (\<lambda>(title, raw). (title, raw + 1)) (filter (\<lambda>(title, raw). \<not> raw \<le> cutoff) ps)))"
proof (induction ps arbitrary: ft fd)
  case Nil
  then show ?case by simp
next
  case (Cons p ps)
  obtain title delta where p: "p = (title, delta)" by (cases p)
  show ?case
  proof (cases "delta > cutoff")
    case True
    with Cons.IH [of "ft @ [title]" "fd @ [delta + 1]"] Cons.prems p
    show ?thesis by simp
  next
    case False
    with Cons.IH [of ft fd] Cons.prems p
    show ?thesis by simp
  qed
qed

lemma filter_loop_kept:
  "filter_loop (zip post_titles deltas) cutoff ([], []) =
     (map fst (kept_pairs post_titles deltas cutoff),
      map snd (kept_pairs post_titles deltas cutoff))"
  using filter_loop_acc [of "[]" "[]" "zip post_titles deltas" cutoff]
  by (simp add: kept_pairs_def)

lemma filter_titles_kept:
  "filter_titles post_titles deltas cutoff =
     unzip_pairs (sort_key snd (kept_pairs post_titles deltas cutoff))"
  by (simp add: filter_titles_def filter_loop_kept zip_map_fst_snd)

lemma unzip_pairs_Inr:
  "unzip_pairs ps = Inr (ts, ds) \<longleftrightarrow> ps \<noteq> [] \<and> ts = map fst ps \<and> ds = map snd ps"
  by (auto simp: unzip_pairs_def)

lemma sort_key_Nil_iff: "sort_key f xs = [] \<longleftrightarrow> xs = []"
  by (metis length_sort length_0_conv)

text \<open>
  Claim C4. For every list of titles and raw day differences and every cutoff, the
  filter loop keeps exactly the posts whose raw day difference is not \<open>\<le> cutoff\<close>,
  in input order, and stores each with its raw day difference plus one. Whenever
  \<^verbatim>\<open>filter_titles\<close> returns, what it returns is these pairs up to order; it
  returns exactly when some post has a raw day difference above the cutoff, and
  raises otherwise.
\<close>

theorem filter_titles_excludes_cutoff:
  "filter_loop (zip post_titles deltas) cutoff ([], []) =
     (map fst (kept_pairs post_titles deltas cutoff), map snd (kept_pairs post_titles deltas cutoff))
   \<and> (filter_titles post_titles deltas cutoff = Inr (ts, ds) \<longrightarrow>
        length ts = length ds \<and> mset (zip ts ds) = mset (kept_pairs post_titles deltas cutoff))
   \<and> ((\<exists>r. filter_titles post_titles deltas cutoff = Inr r) =
        (\<exists>(title, raw) \<in> set (zip post_titles deltas). cutoff < raw))"
proof (intro conjI impI)
  show "filter_loop (zip post_titles deltas) cutoff ([], []) =
     (map fst (kept_pairs post_titles deltas cutoff), map snd (kept_pairs post_titles deltas cutoff))"
    by (rule filter_loop_kept)
next
  assume "filter_titles post_titles deltas cutoff = Inr (ts, ds)"
  then have *: "ts = map fst (sort_key snd (kept_pairs post_titles deltas cutoff))"
    "ds = map snd (sort_key snd (kept_pairs post_titles deltas cutoff))"
    by (simp_all add: filter_titles_kept unzip_pairs_Inr)
  show "length ts = length ds" using * by simp
  show "mset (zip ts ds) = mset (kept_pairs post_titles deltas cutoff)"
    using * by (simp add: zip_map_fst_snd)
next
  have "(\<exists>r. filter_titles post_titles deltas cutoff = Inr r) = (kept_pairs post_titles deltas cutoff \<noteq> [])"
    by (auto simp: filter_titles_kept unzip_pairs_def sort_key_Nil_iff)
  also have "\<dots> = (\<exists>(title, raw) \<in> set (zip post_titles deltas). cutoff < raw)"
    by (simp add: kept_pairs_def filter_empty_conv split_beta not_le)
  finally show "(\<exists>r. filter_titles post_titles deltas cutoff = Inr r) =
        (\<exists>(title, raw) \<in> set (zip post_titles deltas). cutoff < raw)" .
qed

theorem filter_titles_excludes_cutoff_witness:
  "filter_titles [''Alpha'', ''Old'', ''Beta''] [-5, -30, -9] (-30) = Inr ([''Beta'', ''Alpha''], [-8, -4])
   \<and> mset (zip [''Beta'', ''Alpha''] [-8, -4 :: int]) =
       mset (kept_pairs [''Alpha'', ''Old'', ''Beta''] [-5, -30, -9] (-30))"
proof -
  have h: "filter_titles [''Alpha'', ''Old'', ''Beta''] [-5, -30, -9] (-30) = Inr ([''Beta'', ''Alpha''], [-8, -4])"
    by (simp add: filter_titles_def unzip_pairs_def)
  from filter_titles_excludes_cutoff [of "[''Alpha'', ''Old'', ''Beta'']" "[-5, -30, -9]" "-30"
      "[''Beta'', ''Alpha'']" "[-8, -4]"] h
  show ?thesis by blast
qed

text \<open>
  Claim C5. When at least one post is kept, \<^verbatim>\<open>filter_titles\<close> returns; the offsets
  it returns are in non-decreasing order; the returned titles and offsets, paired
  position by position, are a permutation of the kept pairs, so every title keeps
  its own offset; and for every offset value the pairs with that offset appear in
  their input order, so the sort is stable.
\<close>

theorem filter_titles_sorted_stable:
  "kept_pairs post_titles deltas cutoff \<noteq> [] \<Longrightarrow>
   \<exists>ts ds. filter_titles post_titles deltas cutoff = Inr (ts, ds)
     \<and> length ts = length ds
     \<and> sorted ds
     \<and> mset (zip ts ds) = mset (kept_pairs post_titles deltas cutoff)
     \<and> (\<forall>k. filter (\<lambda>p. snd p = k) (zip ts ds) =
             filter (\<lambda>p. snd p = k) (kept_pairs post_titles deltas cutoff))"
proof -
  assume ne: "kept_pairs post_titles deltas cutoff \<noteq> []"
  let ?K = "kept_pairs post_titles deltas cutoff"
  let ?S = "sort_key snd ?K"
  have "?S \<noteq> []" using ne by (simp add: sort_key_Nil_iff)
  then have "filter_titles post_titles deltas cutoff = Inr (map fst ?S, map snd ?S)"
    by (simp add: filter_titles_kept unzip_pairs_def)
  moreover have "sorted (map snd ?S)" by (rule sorted_sort_key)
  moreover have "zip (map fst ?S) (map snd ?S) = ?S" by (rule zip_map_fst_snd)
  moreover have "mset ?S = mset ?K" by simp
  moreover have "\<forall>k. filter (\<lambda>p. snd p = k) ?S = filter (\<lambda>p. snd p = k) ?K"
    by (simp add: sort_key_stable)
  ultimately show ?thesis by simp
qed

theorem filter_titles_sorted_stable_witness:
  "kept_pairs [''B'', ''Old'', ''A1'', ''A2''] [-5, -31, -9, -9] (-30) \<noteq> []
   \<and> filter_titles [''B'', ''Old'', ''A1'', ''A2''] [-5, -31, -9, -9] (-30) =
       Inr ([''A1'', ''A2'', ''B''], [-8, -8, -4])"
proof -
  have h: "kept_pairs [''B'', ''Old'', ''A1'', ''A2''] [-5, -31, -9, -9] (-30) \<noteq> []"
    by (simp add: kept_pairs_def)
  from filter_titles_sorted_stable [OF h]
  show ?thesis using h by (simp add: filter_titles_def unzip_pairs_def)
qed

subsection \<open>Decimal text of integers\<close>

lemma is_digit_cases:
  "is_digit c \<longleftrightarrow> c \<in> {CHR ''0'', CHR ''1'', CHR ''2'', CHR ''3'', CHR ''4'', CHR ''5'', CHR ''6'', CHR ''7'', CHR ''8'', CHR ''9''}"
  by (auto simp: is_digit_def digits_def)

lemma digit_char_cases:
  "n < 10 \<Longrightarrow> digit_char n \<in> {CHR ''0'', CHR ''1'', CHR ''2'', CHR ''3'', CHR ''4'', CHR ''5'', CHR ''6'', CHR ''7'', CHR ''8'', CHR ''9''}"
proof -
  assume "n < 10"
  then have "n \<in> {0, 1, 2, 3, 4, 5, 6, 7, 8, 9}" by auto
  then show ?thesis by (auto simp: digit_char_def digits_def)
qed

lemma is_digit_digit_char: "n < 10 \<Longrightarrow> is_digit (digit_char n)"
  using digit_char_cases [of n] by (simp add: is_digit_cases)

lemma digit_val_digit_char: "n < 10 \<Longrightarrow> digit_val (digit_char n) = n"
proof -
  assume "n < 10"
  then have "n \<in> {0, 1, 2, 3, 4, 5, 6, 7, 8, 9}" by auto
  then show ?thesis by (auto simp: digit_char_def digits_def digit_val_def)
qed

lemma digit_char_digit_val: "is_digit c \<Longrightarrow> digit_char (digit_val c) = c"
  by (auto simp: is_digit_cases digit_char_def digits_def digit_val_def)

lemma digit_val_less: "is_digit c \<Longrightarrow> digit_val c < 10"
  by (auto simp: is_digit_cases digit_val_def)

lemma is_digit_not_space: "is_digit c \<Longrightarrow> \<not> is_space c"
  by (auto simp: is_digit_cases is_space_def)

lemma is_digit_not_underscore: "is_digit c \<Longrightarrow> c \<noteq> CHR ''_''"
  by (auto simp: is_digit_cases)

lemma str_nat_digits: "list_all is_digit (str_nat n)"
proof (induction n rule: str_nat.induct)
  case (1 n)
  show ?case
  proof (cases "n < 10")
    case True
    then show ?thesis by (subst str_nat.simps) (simp add: is_digit_digit_char)
  next
    case False
    with 1 show ?thesis by (subst str_nat.simps) (simp add: is_digit_digit_char)
  qed
qed

lemma str_nat_not_Nil: "str_nat n \<noteq> []"
  by (subst str_nat.simps) simp

lemma digits_val_snoc: "digits_val (ds @ [c]) = 10 * digits_val ds + digit_val c"
  by (simp add: digits_val_def)

lemma digits_val_str_nat: "digits_val (str_nat n) = n"
proof (induction n rule: str_nat.induct)
  case (1 n)
  show ?case
  proof (cases "n < 10")
    case True
    then show ?thesis by (subst str_nat.simps) (simp add: digits_val_def digit_val_digit_char)
  next
    case False
    then have "digits_val (str_nat n) = 10 * digits_val (str_nat (n div 10)) + digit_val (digit_char (n mod 10))"
      by (subst str_nat.simps) (simp add: digits_val_snoc)
    with 1 False show ?thesis by (simp add: digit_val_digit_char)
  qed
qed

lemma strip_id: "s \<noteq> [] \<Longrightarrow> \<not> is_space (hd s) \<Longrightarrow> \<not> is_space (last s) \<Longrightarrow> strip s = s"
proof -
  assume s: "s \<noteq> []" and h: "\<not> is_space (hd s)" and l: "\<not> is_space (last s)"
  from s h have 1: "dropWhile is_space s = s" by (simp add: dropWhile_eq_self_iff)
  from s l have 2: "dropWhile is_space (rev s) = rev s"
    by (simp add: dropWhile_eq_self_iff hd_rev)
  show ?thesis by (simp add: strip_def 1 2)
qed

lemma py_in_no_char: "c \<notin> set s \<Longrightarrow> \<not> py_in (c # sub) s"
  by (induction s) auto

lemma int_literal_digits: "ds \<noteq> [] \<Longrightarrow> list_all is_digit ds \<Longrightarrow> int_literal ds"
proof -
  assume ne: "ds \<noteq> []" and all: "list_all is_digit ds"
  from all have mem: "\<And>c. c \<in> set ds \<Longrightarrow> is_digit c" by (simp add: list_all_iff)
  have "CHR ''_'' \<notin> set ds" using mem is_digit_not_underscore by blast
  then have "\<not> py_in ''__'' ds" by (rule py_in_no_char)
  moreover have "is_digit (hd ds)" "is_digit (last ds)" using ne mem by simp_all
  moreover have "list_all (\<lambda>c. is_digit c \<or> c = CHR ''_'') ds" using mem by (simp add: list_all_iff)
  ultimately show ?thesis using ne by (simp add: int_literal_def)
qed

lemma filter_digits_id: "list_all is_digit ds \<Longrightarrow> filter is_digit ds = ds"
  by (simp add: list_all_iff)

lemma py_int_digits:
  "ds \<noteq> [] \<Longrightarrow> list_all is_digit ds \<Longrightarrow> py_int ds = Inr (int (digits_val ds))"
proof -
  assume ne: "ds \<noteq> []" and all: "list_all is_digit ds"
  from all have mem: "\<And>c. c \<in> set ds \<Longrightarrow> is_digit c" by (simp add: list_all_iff)
  have hd: "is_digit (hd ds)" and lst: "is_digit (last ds)" using ne mem by simp_all
  have st: "strip ds = ds" using ne hd lst by (simp add: strip_id is_digit_not_space)
  obtain c r where cr: "ds = c # r" using ne by (cases ds) auto
  have "c \<noteq> CHR ''+''" "c \<noteq> CHR ''-''" using hd cr by (auto simp: is_digit_cases)
  then show ?thesis
    using int_literal_digits [OF ne all] filter_digits_id [OF all] cr
    by (simp add: py_int_def st [unfolded cr])
qed

lemma py_int_plus_digits:
  "ds \<noteq> [] \<Longrightarrow> list_all is_digit ds \<Longrightarrow> py_int (CHR ''+'' # ds) = Inr (int (digits_val ds))"
proof -
  assume ne: "ds \<noteq> []" and all: "list_all is_digit ds"
  from all have mem: "\<And>c. c \<in> set ds \<Longrightarrow> is_digit c" by (simp add: list_all_iff)
  have lst: "is_digit (last ds)" using ne mem by simp
  have "\<not> is_space (CHR ''+'')" by (simp add: is_space_def)
  then have st: "strip (CHR ''+'' # ds) = CHR ''+'' # ds"
    using ne lst by (simp add: strip_id is_digit_not_space)
  show ?thesis
    using int_literal_digits [OF ne all] filter_digits_id [OF all]
    by (simp add: py_int_def st)
qed

lemma py_int_py_str_abs: "py_int (py_str \<bar>i\<bar>) = Inr \<bar>i\<bar>"
  by (simp add: py_str_def py_int_digits str_nat_not_Nil str_nat_digits digits_val_str_nat)

lemma py_int_plus_py_str_abs: "py_int (''+'' @ py_str \<bar>i\<bar>) = Inr \<bar>i\<bar>"
  by (simp add: py_str_def py_int_plus_digits str_nat_not_Nil str_nat_digits digits_val_str_nat)

subsection \<open>The renderer\<close>

lemma counter_add_not_Nil: "counter_add x c \<noteq> []"
  by (cases c) (auto split: if_splits)

lemma Counter_snoc: "Counter (xs @ [x]) = counter_add x (Counter xs)"
  by (simp add: Counter_def)

lemma Counter_Nil_iff: "Counter xs = [] \<longleftrightarrow> xs = []"
proof (cases xs rule: rev_cases)
  case Nil
  then show ?thesis by (simp add: Counter_def)
next
  case (snoc ys y)
  then show ?thesis by (simp add: Counter_snoc counter_add_not_Nil)
qed

lemma py_max_ValueError: "py_max ys = Inl ValueError \<longleftrightarrow> ys = []"
  by (simp add: py_max_def split: list.splits)

lemma py_max_Inl: "py_max ys = Inl e \<longleftrightarrow> ys = [] \<and> e = ValueError"
  by (auto simp: py_max_def split: list.splits)

lemma foldl_max_zeros: "foldl max (0::nat) (replicate n 0) = 0"
  by (induction n) simp_all

lemma py_max_zeros: "0 < n \<Longrightarrow> py_max (replicate n 0) = Inr 0"
  by (cases n) (simp_all add: py_max_def foldl_max_zeros)

lemma upto_Nil_iff: "[i..j] = [] \<longleftrightarrow> j < i"
  by simp

lemma length_window: "length [cutoff..- 1] = nat (- cutoff)"
  by simp

lemma empty_hist: "map (counter_get (Counter [])) xs = replicate (length xs) 0"
  by (induction xs) (simp_all add: Counter_def counter_get_def)

lemma annotate_Inr:
  "(\<exists>notes. annotate titles_arr deltas_arr items = Inr notes) \<longleftrightarrow>
     items = [] \<or> length titles_arr = length deltas_arr"
  by (induction items) (auto split: sum.splits if_splits)

lemma annotate_Inl:
  "annotate titles_arr deltas_arr items = Inl e \<Longrightarrow> e = IndexError"
  by (induction items) (auto split: sum.splits if_splits)

lemma last_post_days_int:
  "py_int (if length deltas > 0 then py_str \<bar>last deltas\<bar> else ''+'' @ py_str \<bar>cutoff\<bar>) =
     Inr (if deltas \<noteq> [] then \<bar>last deltas\<bar> else \<bar>cutoff\<bar>)"
  using py_int_py_str_abs [of "last deltas"] py_int_plus_py_str_abs [of cutoff]
  by (simp del: append.simps)

lemma line_plot_unfold:
  assumes "cutoff < 0"
  shows "line_plot post_titles deltas cutoff =
     (case annotate post_titles deltas (Counter deltas) of
        Inl e \<Rightarrow> Inl e
      | Inr ns \<Rightarrow>
          Inr \<lparr>line_x = [cutoff..- 1],
               line_y = map (counter_get (Counter deltas)) [cutoff..- 1],
               yticks = [0..<(case py_max (map (counter_get (Counter deltas)) [cutoff..- 1]) of
                                Inr m \<Rightarrow> m | Inl e \<Rightarrow> 0) + 1],
               annotations = ns,
               callout = (if deltas \<noteq> [] then py_str \<bar>last deltas\<bar> else ''+'' @ py_str \<bar>cutoff\<bar>),
               mood = (if (if deltas \<noteq> [] then \<bar>last deltas\<bar> else \<bar>cutoff\<bar>) < 14
                       then ''\"Nice!\"'' else ''\"UH OH!\"'')\<rparr>)"
proof -
  let ?ys = "map (counter_get (Counter deltas)) [cutoff..- 1]"
  let ?lpd = "if length deltas > 0 then py_str \<bar>last deltas\<bar> else ''+'' @ py_str \<bar>cutoff\<bar>"
  from assms have "?ys \<noteq> []" by simp
  then obtain m where m: "py_max ?ys = Inr m"
    by (cases "py_max ?ys") (auto simp: py_max_Inl)
  have lpd: "py_int ?lpd = Inr (if deltas \<noteq> [] then \<bar>last deltas\<bar> else \<bar>cutoff\<bar>)"
    by (rule last_post_days_int)
  have eq: "?lpd = (if deltas \<noteq> [] then py_str \<bar>last deltas\<bar> else ''+'' @ py_str \<bar>cutoff\<bar>)"
    by simp
  show ?thesis
    unfolding line_plot_def Let_def m lpd
    by (simp only: sum.case eq)
qed

lemma line_plot_raises_ValueError:
  assumes "0 \<le> cutoff"
  shows "line_plot post_titles deltas cutoff = Inl ValueError"
proof -
  from assms have "py_max (map (counter_get (Counter deltas)) [cutoff..- 1]) = Inl ValueError"
    by (simp add: py_max_ValueError)
  then show ?thesis unfolding line_plot_def Let_def by (simp only: sum.case)
qed

lemma str_nat_small: "n < 10 \<Longrightarrow> str_nat n = [digit_char n]"
  by (subst str_nat.simps) simp

lemma str_nat_30: "str_nat 30 = ''30''"
  by (subst str_nat.simps) (simp add: str_nat_small digit_char_def digits_def)

text \<open>
  Claim C6. Whenever the renderer returns a chart, its callout is the decimal text
  of the absolute value of the last offset when there is at least one offset, and
  a plus sign followed by the decimal text of the absolute value of the cutoff
  when there is none; the mood is \<^verbatim>\<open>"Nice!"\<close> when that absolute number of days is
  below 14 and \<^verbatim>\<open>"UH OH!"\<close> otherwise. The renderer returns a chart exactly when
  the cutoff is negative and the titles and offsets have the same length or there
  are no offsets.
\<close>

theorem callout_and_mood:
  "((\<exists>chart. line_plot post_titles deltas cutoff = Inr chart) =
      (cutoff < 0 \<and> (deltas = [] \<or> length post_titles = length deltas)))
   \<and> (line_plot post_titles deltas cutoff = Inr fig \<longrightarrow>
         callout fig = (if deltas \<noteq> [] then py_str \<bar>last deltas\<bar> else ''+'' @ py_str \<bar>cutoff\<bar>)
       \<and> mood fig = (if (if deltas \<noteq> [] then \<bar>last deltas\<bar> else \<bar>cutoff\<bar>) < 14
                     then ''\"Nice!\"'' else ''\"UH OH!\"''))"
proof (cases "cutoff < 0")
  case False
  then have "line_plot post_titles deltas cutoff = Inl ValueError"
    by (simp add: line_plot_raises_ValueError)
  with False show ?thesis by simp
next
  case True
  note unf = line_plot_unfold [OF True, of post_titles deltas]
  show ?thesis
  proof (cases "annotate post_titles deltas (Counter deltas)")
    case (Inl e)
    then have "\<not> (Counter deltas = [] \<or> length post_titles = length deltas)"
      using annotate_Inr [of post_titles deltas "Counter deltas"] by auto
    moreover have "line_plot post_titles deltas cutoff = Inl e"
      unfolding unf Inl by simp
    ultimately show ?thesis using True by (simp add: Counter_Nil_iff)
  next
    case (Inr ns)
    then have ok: "Counter deltas = [] \<or> length post_titles = length deltas"
      using annotate_Inr [of post_titles deltas "Counter deltas"] by auto
    have lp: "line_plot post_titles deltas cutoff =
      Inr \<lparr>line_x = [cutoff..- 1],
               line_y = map (counter_get (Counter deltas)) [cutoff..- 1],
               yticks = [0..<(case py_max (map (counter_get (Counter deltas)) [cutoff..- 1]) of
                                Inr m \<Rightarrow> m | Inl e \<Rightarrow> 0) + 1],
               annotations = ns,
               callout = (if deltas \<noteq> [] then py_str \<bar>last deltas\<bar> else ''+'' @ py_str \<bar>cutoff\<bar>),
               mood = (if (if deltas \<noteq> [] then \<bar>last deltas\<bar> else \<bar>cutoff\<bar>) < 14
                       then ''\"Nice!\"'' else ''\"UH OH!\"'')\<rparr>"
      unfolding unf Inr by (simp only: sum.case)
    have 1: "(\<exists>chart. line_plot post_titles deltas cutoff = Inr chart) =
      (cutoff < 0 \<and> (deltas = [] \<or> length post_titles = length deltas))"
      using True ok lp by (simp add: Counter_Nil_iff)
    have 2: "line_plot post_titles deltas cutoff = Inr fig \<longrightarrow>
         callout fig = (if deltas \<noteq> [] then py_str \<bar>last deltas\<bar> else ''+'' @ py_str \<bar>cutoff\<bar>)
       \<and> mood fig = (if (if deltas \<noteq> [] then \<bar>last deltas\<bar> else \<bar>cutoff\<bar>) < 14
                     then ''\"Nice!\"'' else ''\"UH OH!\"'')"
    proof
      assume "line_plot post_titles deltas cutoff = Inr fig"
      with lp have fig: "fig = \<lparr>line_x = [cutoff..- 1],
               line_y = map (counter_get (Counter deltas)) [cutoff..- 1],
               yticks = [0..<(case py_max (map (counter_get (Counter deltas)) [cutoff..- 1]) of
                                Inr m \<Rightarrow> m | Inl e \<Rightarrow> 0) + 1],
               annotations = ns,
               callout = (if deltas \<noteq> [] then py_str \<bar>last deltas\<bar> else ''+'' @ py_str \<bar>cutoff\<bar>),
               mood = (if (if deltas \<noteq> [] then \<bar>last deltas\<bar> else \<bar>cutoff\<bar>) < 14
                       then ''\"Nice!\"'' else ''\"UH OH!\"'')\<rparr>"
        by simp
      show "callout fig = (if deltas \<noteq> [] then py_str \<bar>last deltas\<bar> else ''+'' @ py_str \<bar>cutoff\<bar>)
       \<and> mood fig = (if (if deltas \<noteq> [] then \<bar>last deltas\<bar> else \<bar>cutoff\<bar>) < 14
                     then ''\"Nice!\"'' else ''\"UH OH!\"'')"
        by (subst (1 2) fig) (simp only: chart.simps simp_thms)
    qed
    from 1 2 show ?thesis by (rule conjI)
  qed
qed

theorem callout_and_mood_witness:
  "(\<exists>fig. line_plot [''Alpha'', ''Beta''] [- 8, - 4] (- 30) = Inr fig
      \<and> callout fig = ''4'' \<and> mood fig = ''\"Nice!\"'')
   \<and> (\<exists>fig. line_plot [] [] (- 30) = Inr fig
      \<and> callout fig = ''+30'' \<and> mood fig = ''\"UH OH!\"'')"
proof -
  note th = callout_and_mood [of "[''Alpha'', ''Beta'']" "[- 8, - 4]" "- 30"]
  from th have "\<exists>fig. line_plot [''Alpha'', ''Beta''] [- 8, - 4] (- 30) = Inr fig" by simp
  then obtain fig where fig: "line_plot [''Alpha'', ''Beta''] [- 8, - 4] (- 30) = Inr fig" ..
  have "py_str 4 = ''4''"
    by (simp add: py_str_def str_nat_small digit_char_def digits_def)
  with th [of fig] fig have "callout fig = ''4'' \<and> mood fig = ''\"Nice!\"''" by simp
  with fig have 1: "\<exists>fig. line_plot [''Alpha'', ''Beta''] [- 8, - 4] (- 30) = Inr fig
      \<and> callout fig = ''4'' \<and> mood fig = ''\"Nice!\"''" by blast
  note th0 = callout_and_mood [of "[]" "[]" "- 30"]
  from th0 have "\<exists>fig. line_plot [] [] (- 30) = Inr fig" by simp
  then obtain fig0 where fig0: "line_plot [] [] (- 30) = Inr fig0" ..
  have "py_str 30 = ''30''"
    by (simp add: py_str_def str_nat_30)
  with th0 [of fig0] fig0 have "callout fig0 = ''+30'' \<and> mood fig0 = ''\"UH OH!\"''" by simp
  with fig0 have 2: "\<exists>fig. line_plot [] [] (- 30) = Inr fig
      \<and> callout fig = ''+30'' \<and> mood fig = ''\"UH OH!\"''" by blast
  from 1 2 show ?thesis by (rule conjI)
qed

text \<open>
  Claim C3 says that with no posts the maximum of the histogram is undefined and
  the renderer raises. With the default cutoff the histogram has thirty entries,
  all zero, and their maximum is 0.
\<close>

theorem max_count_empty_counterexample:
  "py_max (map (counter_get (Counter [])) [- 30..- 1]) = Inr 0
   \<and> line_plot [] [] (- 30) \<noteq> Inl ValueError"
proof
  have "map (counter_get (Counter [])) [- 30..- 1] = replicate (length [- 30..- 1 :: int]) 0"
    by (rule empty_hist)
  also have "length [- 30..- 1 :: int] = 30" by simp
  finally show "py_max (map (counter_get (Counter [])) [- 30..- 1]) = Inr 0"
    by (simp only: py_max_zeros zero_less_numeral)
next
  have "line_plot [] [] (- 30) = Inl ValueError \<longleftrightarrow> False"
    unfolding line_plot_unfold [of "- 30" "[]" "[]", simplified]
    by (simp add: Counter_def)
  then show "line_plot [] [] (- 30) \<noteq> Inl ValueError" by simp
qed

text \<open>
  Claim C3, amended. The maximum is taken over one count per day of the window
  from the cutoff up to, but not including, day 0. It raises exactly when that
  window is empty, that is when the cutoff is not negative, whatever the posts.
  For a negative cutoff and no posts the histogram is all zero, its maximum is 0
  and the renderer returns a chart.
\<close>

theorem max_count_raises_iff_window_empty:
  "((py_max (map (counter_get (Counter deltas)) [cutoff..- 1]) = Inl ValueError) = (0 \<le> cutoff))
   \<and> ((line_plot post_titles deltas cutoff = Inl ValueError) = (0 \<le> cutoff))
   \<and> (cutoff < 0 \<longrightarrow>
         py_max (map (counter_get (Counter [])) [cutoff..- 1]) = Inr 0
       \<and> (\<exists>fig. line_plot post_titles [] cutoff = Inr fig
              \<and> line_y fig = replicate (nat (- cutoff)) 0))"
proof (intro conjI impI)
  show "(py_max (map (counter_get (Counter deltas)) [cutoff..- 1]) = Inl ValueError) = (0 \<le> cutoff)"
    by (auto simp: py_max_ValueError)
next
  show "(line_plot post_titles deltas cutoff = Inl ValueError) = (0 \<le> cutoff)"
  proof (cases "cutoff < 0")
    case False
    then show ?thesis by (simp add: line_plot_raises_ValueError)
  next
    case True
    have "line_plot post_titles deltas cutoff \<noteq> Inl ValueError"
    proof (cases "annotate post_titles deltas (Counter deltas)")
      case (Inl e)
      then have "e = IndexError" by (rule annotate_Inl)
      with Inl show ?thesis unfolding line_plot_unfold [OF True] by simp
    next
      case (Inr ns)
      then show ?thesis unfolding line_plot_unfold [OF True] by simp
    qed
    with True show ?thesis by simp
  qed
next
  assume neg: "cutoff < 0"
  have len: "length [cutoff..- 1] = nat (- cutoff)" by simp
  have ys: "map (counter_get (Counter [])) [cutoff..- 1] = replicate (nat (- cutoff)) 0"
    using empty_hist [of "[cutoff..- 1]"] by (simp only: len)
  from neg have pos: "0 < nat (- cutoff)" by simp
  show "py_max (map (counter_get (Counter [])) [cutoff..- 1]) = Inr 0"
    unfolding ys using pos by (rule py_max_zeros)
  have "annotate post_titles [] (Counter []) = Inr []" by (simp add: Counter_def)
  then show "\<exists>fig. line_plot post_titles [] cutoff = Inr fig \<and> line_y fig = replicate (nat (- cutoff)) 0"
    unfolding line_plot_unfold [OF neg] ys by simp
qed

theorem max_count_raises_iff_window_empty_witness:
  "(- 30 :: int) < 0
   \<and> py_max (map (counter_get (Counter [])) [- 30..- 1]) = Inr 0
   \<and> (\<exists>fig. line_plot [''ignored''] [] (- 30) = Inr fig \<and> line_y fig = replicate 30 0)"
proof -
  have h: "(- 30 :: int) < 0" by simp
  from max_count_raises_iff_window_empty [of "[]" "- 30" "[''ignored'']"] h
  show ?thesis by simp
qed

text \<open>
  Claim C1 asks that a run over no posts, or over posts that are all filtered out,
  completes with an all-zero chart. In the program \<^verbatim>\<open>filter_titles\<close> raises
  \<^verbatim>\<open>ValueError\<close> when nothing is kept, and the run ends there, after its first
  line of output and before the renderer is reached.
\<close>

theorem empty_posts_run_raises:
  "filter_titles [] [] (- 30) = Inl ValueError
   \<and> filter_titles [''Old''] [- 40] (- 30) = Inl ValueError
   \<and> main \<lparr>dirs = [''_posts/'' \<mapsto> [] ], files = fl\<rparr> today =
       ([''0 Posts found!''], Inl ValueError)
   \<and> main \<lparr>dirs = [''_posts/'' \<mapsto> [''2024-01-01-a.md''] ],
            files = [''_posts/2024-01-01-a.md'' \<mapsto> ''title: Old\<newline>'']\<rparr>
          \<lparr>year = 2024, month = 6, day = 1, hour = 12, minute = 0, second = 0,
           microsecond = 0\<rparr> =
       ([''1 Posts found!''], Inl ValueError)"
proof (intro conjI)
  show "main \<lparr>dirs = [''_posts/'' \<mapsto> [''2024-01-01-a.md''] ],
            files = [''_posts/2024-01-01-a.md'' \<mapsto> ''title: Old\<newline>'']\<rparr>
          \<lparr>year = 2024, month = 6, day = 1, hour = 12, minute = 0, second = 0,
           microsecond = 0\<rparr> =
       ([''1 Posts found!''], Inl ValueError)"
    by code_simp
next
  show "filter_titles [] [] (- 30) = Inl ValueError"
    by (simp add: filter_titles_def unzip_pairs_def)
  show "filter_titles [''Old''] [- 40] (- 30) = Inl ValueError"
    by (simp add: filter_titles_def unzip_pairs_def)
  have "py_str 0 = ''0''"
    by (simp add: py_str_def str_nat_small digit_char_def digits_def)
  then show "main \<lparr>dirs = [''_posts/'' \<mapsto> [] ], files = fl\<rparr> today =
       ([''0 Posts found!''], Inl ValueError)"
    by (simp add: main_def list_posts_def timedelta_dates_def filter_titles_def unzip_pairs_def)
qed

subsection \<open>Dated names\<close>

lemma match_classes_nth:
  "match_classes cls s =
     (if length cls \<le> length s \<and> (\<forall>i<length cls. s ! i \<in> set (cls ! i))
      then Some (take (length cls) s, drop (length cls) s) else None)"
proof (induction cls s rule: match_classes.induct)
  case (1 s)
  then show ?case by simp
next
  case (2 cl cls)
  then show ?case by simp
next
  case (3 cl cls c cs)
  show ?case
  proof (cases "c \<in> set cl")
    case False
    then show ?thesis by auto
  next
    case True
    have "(\<forall>i<length (cl # cls). (c # cs) ! i \<in> set ((cl # cls) ! i)) \<longleftrightarrow>
          (\<forall>i<length cls. cs ! i \<in> set (cls ! i))"
      using True by (auto simp: nth_Cons split: nat.splits)
    with 3 True show ?thesis by simp
  qed
qed

lemma all_less_10:
  "(\<forall>i<10. P (i::nat)) \<longleftrightarrow> P 0 \<and> P 1 \<and> P 2 \<and> P 3 \<and> P 4 \<and> P 5 \<and> P 6 \<and> P 7 \<and> P 8 \<and> P 9"
proof
  assume "\<forall>i<10. P i"
  then show "P 0 \<and> P 1 \<and> P 2 \<and> P 3 \<and> P 4 \<and> P 5 \<and> P 6 \<and> P 7 \<and> P 8 \<and> P 9" by simp
next
  assume a: "P 0 \<and> P 1 \<and> P 2 \<and> P 3 \<and> P 4 \<and> P 5 \<and> P 6 \<and> P 7 \<and> P 8 \<and> P 9"
  show "\<forall>i<10. P i"
  proof (intro allI impI)
    fix i :: nat assume "i < 10"
    then have "i = 0 \<or> i = 1 \<or> i = 2 \<or> i = 3 \<or> i = 4 \<or> i = 5 \<or> i = 6 \<or> i = 7 \<or> i = 8 \<or> i = 9"
      by arith
    with a show "P i" by auto
  qed
qed

lemma date_match_eq:
  "date_match s = (if has_date_prefix s then Some (take 10 s) else None)"
proof -
  define cls where
    "cls = [digits, digits, digits, digits, ''-'', digits, digits, ''-'', digits, digits]"
  have L: "length cls = 10" by (simp add: cls_def)
  have N: "cls ! 0 = digits" "cls ! 1 = digits" "cls ! 2 = digits" "cls ! 3 = digits"
    "cls ! 4 = ''-''" "cls ! 5 = digits" "cls ! 6 = digits" "cls ! 7 = ''-''"
    "cls ! 8 = digits" "cls ! 9 = digits"
    by (simp_all add: cls_def)
  have M: "match_classes cls s =
     (if 10 \<le> length s \<and>
         (s ! 0 \<in> set digits \<and> s ! 1 \<in> set digits \<and> s ! 2 \<in> set digits \<and> s ! 3 \<in> set digits
          \<and> s ! 4 \<in> set ''-'' \<and> s ! 5 \<in> set digits \<and> s ! 6 \<in> set digits
          \<and> s ! 7 \<in> set ''-'' \<and> s ! 8 \<in> set digits \<and> s ! 9 \<in> set digits)
      then Some (take 10 s, drop 10 s) else None)"
    by (simp only: match_classes_nth L all_less_10 N)
  have P: "has_date_prefix s \<longleftrightarrow>
      10 \<le> length s \<and>
         (s ! 0 \<in> set digits \<and> s ! 1 \<in> set digits \<and> s ! 2 \<in> set digits \<and> s ! 3 \<in> set digits
          \<and> s ! 4 \<in> set ''-'' \<and> s ! 5 \<in> set digits \<and> s ! 6 \<in> set digits
          \<and> s ! 7 \<in> set ''-'' \<and> s ! 8 \<in> set digits \<and> s ! 9 \<in> set digits)"
    by (auto simp: has_date_prefix_def ymd_pattern_def is_digit_def min_def)
  show ?thesis
    unfolding date_match_def cls_def [symmetric] M P [symmetric] by simp
qed

text \<open>
  Claim C8. For every directory listing, \<^verbatim>\<open>list_posts\<close> returns the entries whose
  first ten characters have the shape \<^verbatim>\<open>YYYY-MM-DD\<close>, in the order of the listing,
  and no other entry.
\<close>

theorem list_posts_keeps_dated:
  "dirs fs post_path = Some listing \<Longrightarrow>
   list_posts fs post_path = Inr (filter has_date_prefix listing)"
  by (simp add: list_posts_def date_match_eq cong: filter_cong)

theorem list_posts_keeps_dated_witness:
  "list_posts \<lparr>dirs = [''_posts/'' \<mapsto> [''2024-01-05-b.md'', ''README.md'', ''drafts'', ''2024-13-40-x'', ''2024-1-05-c.md''] ],
                files = Map.empty\<rparr> ''_posts/'' = Inr [''2024-01-05-b.md'', ''2024-13-40-x'']"
proof -
  have h: "dirs \<lparr>dirs = [''_posts/'' \<mapsto> [''2024-01-05-b.md'', ''README.md'', ''drafts'', ''2024-13-40-x'', ''2024-1-05-c.md''] ],
                files = Map.empty\<rparr> ''_posts/'' = Some [''2024-01-05-b.md'', ''README.md'', ''drafts'', ''2024-13-40-x'', ''2024-1-05-c.md'']"
    by simp
  show ?thesis
    unfolding list_posts_keeps_dated [OF h]
    by (simp add: has_date_prefix_def ymd_pattern_def is_digit_def digits_def)
qed

subsection \<open>Dates out of names and back\<close>

lemma str_nat_step:
  "b < 10 \<Longrightarrow> str_nat (10 * a + b) = (if a = 0 then [digit_char b] else str_nat a @ [digit_char b])"
  by (subst str_nat.simps) simp

lemma str_nat_0: "str_nat 0 = ''0''"
  by (subst str_nat.simps) (simp add: digit_char_def digits_def)

lemma zero_pad_digits_val:
  "ds \<noteq> [] \<Longrightarrow> list_all is_digit ds \<Longrightarrow> zero_pad (length ds) (digits_val ds) = ds"
proof (induction ds rule: rev_induct)
  case Nil
  then show ?case by simp
next
  case (snoc c xs)
  from snoc.prems have c: "is_digit c" and xs: "list_all is_digit xs" by simp_all
  from c have b: "digit_val c < 10" by (rule digit_val_less)
  have n: "digits_val (xs @ [c]) = 10 * digits_val xs + digit_val c" by (rule digits_val_snoc)
  show ?case
  proof (cases "xs = []")
    case True
    then show ?thesis
      using b c by (simp add: zero_pad_def digits_val_def str_nat_small digit_char_digit_val)
  next
    case False
    with snoc.IH xs have IH: "zero_pad (length xs) (digits_val xs) = xs" by simp
    show ?thesis
    proof (cases "digits_val xs = 0")
      case True
      with IH have "replicate (length xs - 1) (CHR ''0'') @ ''0'' = xs"
        by (simp add: zero_pad_def str_nat_0)
      moreover have "replicate (length xs - 1) (CHR ''0'') @ ''0'' = replicate (length xs) (CHR ''0'')"
        using False by (cases xs) (simp_all add: replicate_append_same)
      ultimately have rep: "replicate (length xs) (CHR ''0'') = xs" by simp
      have "zero_pad (length (xs @ [c])) (digits_val (xs @ [c])) =
            replicate (length xs) (CHR ''0'') @ [c]"
        using True b c by (simp add: zero_pad_def n str_nat_small digit_char_digit_val)
      then show ?thesis by (simp only: rep)
    next
      case nz: False
      have "zero_pad (length (xs @ [c])) (digits_val (xs @ [c])) =
            zero_pad (length xs) (digits_val xs) @ [c]"
        using nz b c by (simp add: zero_pad_def n str_nat_step digit_char_digit_val)
      with IH show ?thesis by simp
    qed
  qed
qed

lemma alts_year:
  "y1 \<in> set digits \<Longrightarrow> y2 \<in> set digits \<Longrightarrow> y3 \<in> set digits \<Longrightarrow> y4 \<in> set digits \<Longrightarrow>
   alts [ [digits, digits, digits, digits] ] (y1 # y2 # y3 # y4 # r) = [([y1, y2, y3, y4], r)]"
  by (simp add: alts_def map_filter_def)

lemma alts_hyphen: "alts [ [''-''] ] (CHR ''-'' # r) = [(''-'', r)]"
  by (simp add: alts_def map_filter_def)

lemma month_cases:
  assumes "is_digit m1" "is_digit m2" "1 \<le> digits_val [m1, m2]" "digits_val [m1, m2] \<le> 12"
  shows "(m1 = CHR ''0'' \<and> m2 \<in> set nonzero) \<or> (m1 = CHR ''1'' \<and> m2 \<in> set ''012'')"
proof -
  have v: "digits_val [m1, m2] = 10 * digit_val m1 + digit_val m2" by (simp add: digits_val_def)
  from assms(1) have "m1 \<in> {CHR ''0'', CHR ''1''} \<or> 2 \<le> digit_val m1"
    by (auto simp: is_digit_cases digit_val_def)
  with assms(4) v have m1: "m1 \<in> {CHR ''0'', CHR ''1''}" by auto
  show ?thesis
  proof (cases "m1 = CHR ''0''")
    case True
    with assms(3) v have "1 \<le> digit_val m2" by (simp add: digit_val_def)
    with assms(2) have "m2 \<in> set nonzero" by (auto simp: is_digit_cases digit_val_def nonzero_def)
    with True show ?thesis by simp
  next
    case False
    with m1 have one: "m1 = CHR ''1''" by simp
    with assms(4) v have "digit_val m2 \<le> 2" by (simp add: digit_val_def)
    with assms(2) have "m2 \<in> set ''012''" by (auto simp: is_digit_cases digit_val_def)
    with one show ?thesis by simp
  qed
qed

lemma day_cases:
  assumes "is_digit d1" "is_digit d2" "1 \<le> digits_val [d1, d2]" "digits_val [d1, d2] \<le> 31"
  shows "(d1 = CHR ''0'' \<and> d2 \<in> set nonzero) \<or> (d1 \<in> set ''12'' \<and> d2 \<in> set digits)
         \<or> (d1 = CHR ''3'' \<and> d2 \<in> set ''01'')"
proof -
  have v: "digits_val [d1, d2] = 10 * digit_val d1 + digit_val d2" by (simp add: digits_val_def)
  from assms(1) have "d1 \<in> {CHR ''0'', CHR ''1'', CHR ''2'', CHR ''3''} \<or> 4 \<le> digit_val d1"
    by (auto simp: is_digit_cases digit_val_def)
  with assms(4) v have d1: "d1 \<in> {CHR ''0'', CHR ''1'', CHR ''2'', CHR ''3''}" by auto
  show ?thesis
  proof (cases "d1 = CHR ''0''")
    case True
    with assms(3) v have "1 \<le> digit_val d2" by (simp add: digit_val_def)
    with assms(2) have "d2 \<in> set nonzero" by (auto simp: is_digit_cases digit_val_def nonzero_def)
    with True show ?thesis by simp
  next
    case False
    show ?thesis
    proof (cases "d1 = CHR ''3''")
      case True
      with assms(4) v have "digit_val d2 \<le> 1" by (simp add: digit_val_def)
      with assms(2) have "d2 \<in> set ''01''" by (auto simp: is_digit_cases digit_val_def)
      with True show ?thesis by simp
    next
      case n3: False
      with False d1 have "d1 \<in> set ''12''" by auto
      with assms(2) show ?thesis by (simp add: is_digit_def)
    qed
  qed
qed

lemma month_part:
  assumes "(m1 = CHR ''0'' \<and> m2 \<in> set nonzero) \<or> (m1 = CHR ''1'' \<and> m2 \<in> set ''012'')"
  shows "concat (map (\<lambda>(m, r3). concat (map (\<lambda>(h2, r4). F m r4) (alts [ [''-''] ] r3)))
           (alts [ [''1'', ''012''], [''0'', nonzero], [nonzero] ] (m1 # m2 # CHR ''-'' # r))) =
         F [m1, m2] r"
  using assms
proof
  assume a: "m1 = CHR ''0'' \<and> m2 \<in> set nonzero"
  then have "alts [ [''1'', ''012''], [''0'', nonzero], [nonzero] ] (m1 # m2 # CHR ''-'' # r) =
      [([m1, m2], CHR ''-'' # r)]"
    by (simp add: alts_def map_filter_def) (simp add: nonzero_def)
  then show ?thesis by (simp add: alts_hyphen)
next
  assume a: "m1 = CHR ''1'' \<and> m2 \<in> set ''012''"
  then have "alts [ [''1'', ''012''], [''0'', nonzero], [nonzero] ] (m1 # m2 # CHR ''-'' # r) =
      [([m1, m2], CHR ''-'' # r), ([m1], m2 # CHR ''-'' # r)]"
    by (simp add: alts_def map_filter_def) (simp add: nonzero_def)
  moreover from a have "alts [ [''-''] ] (m2 # CHR ''-'' # r) = []"
    by (auto simp: alts_def map_filter_def)
  ultimately show ?thesis by (simp add: alts_hyphen)
qed

lemma day_part:
  assumes "(d1 = CHR ''0'' \<and> d2 \<in> set nonzero) \<or> (d1 \<in> set ''12'' \<and> d2 \<in> set digits)
         \<or> (d1 = CHR ''3'' \<and> d2 \<in> set ''01'')"
  shows "\<exists>tl. map (\<lambda>(d, r5). G d r5)
            (alts [ [''3'', ''01''], [''12'', digits], [''0'', nonzero], [nonzero], ['' '', nonzero] ]
               [d1, d2]) = G [d1, d2] [] # tl"
  using assms
proof (elim disjE)
  assume a: "d1 = CHR ''0'' \<and> d2 \<in> set nonzero"
  then have "alts [ [''3'', ''01''], [''12'', digits], [''0'', nonzero], [nonzero], ['' '', nonzero] ]
               [d1, d2] = [([d1, d2], [])]"
    by (simp add: alts_def map_filter_def) (simp add: nonzero_def)
  then show ?thesis by simp
next
  assume a: "d1 \<in> set ''12'' \<and> d2 \<in> set digits"
  then have "alts [ [''3'', ''01''], [''12'', digits], [''0'', nonzero], [nonzero], ['' '', nonzero] ]
               [d1, d2] = [([d1, d2], []), ([d1], [d2])]"
    by (auto simp: alts_def map_filter_def nonzero_def)
  then show ?thesis by simp
next
  assume a: "d1 = CHR ''3'' \<and> d2 \<in> set ''01''"
  then have "alts [ [''3'', ''01''], [''12'', digits], [''0'', nonzero], [nonzero], ['' '', nonzero] ]
               [d1, d2] = [([d1, d2], []), ([d1], [d2])]"
    by (auto simp: alts_def map_filter_def nonzero_def)
  then show ?thesis by simp
qed

lemma ymd_regex_valid:
  assumes y: "y1 \<in> set digits" "y2 \<in> set digits" "y3 \<in> set digits" "y4 \<in> set digits"
    and m: "(m1 = CHR ''0'' \<and> m2 \<in> set nonzero) \<or> (m1 = CHR ''1'' \<and> m2 \<in> set ''012'')"
    and d: "(d1 = CHR ''0'' \<and> d2 \<in> set nonzero) \<or> (d1 \<in> set ''12'' \<and> d2 \<in> set digits)
         \<or> (d1 = CHR ''3'' \<and> d2 \<in> set ''01'')"
  shows "\<exists>tl. ymd_regex [y1, y2, y3, y4, CHR ''-'', m1, m2, CHR ''-'', d1, d2] =
           ([y1, y2, y3, y4], [m1, m2], [d1, d2], []) # tl"
proof -
  have "ymd_regex [y1, y2, y3, y4, CHR ''-'', m1, m2, CHR ''-'', d1, d2] =
     map (\<lambda>(d, r5). ([y1, y2, y3, y4], [m1, m2], d, r5))
       (alts [ [''3'', ''01''], [''12'', digits], [''0'', nonzero], [nonzero], ['' '', nonzero] ]
               [d1, d2])"
    unfolding ymd_regex_def
    by (simp add: alts_year [OF y] alts_hyphen month_part [OF m])
  with day_part [OF d, of "\<lambda>d r5. ([y1, y2, y3, y4], [m1, m2], d, r5)"]
  show ?thesis by simp
qed

lemma ten_chars:
  assumes "length p = 10"
  shows "p = [p ! 0, p ! 1, p ! 2, p ! 3, p ! 4, p ! 5, p ! 6, p ! 7, p ! 8, p ! 9]"
proof -
  from assms obtain a0 a1 a2 a3 a4 a5 a6 a7 a8 a9
    where "p = [a0, a1, a2, a3, a4, a5, a6, a7, a8, a9]"
    by (auto simp: numeral_eq_Suc length_Suc_conv)
  then show ?thesis by simp
qed

lemma strptime_ymd_valid:
  assumes pat: "ymd_pattern p"
    and val: "valid_date (digits_val (take 4 p)) (digits_val (take 2 (drop 5 p)))
                (digits_val (take 2 (drop 8 p)))"
  shows "strptime_ymd p =
     Inr \<lparr>year = digits_val (take 4 p), month = digits_val (take 2 (drop 5 p)),
          day = digits_val (take 2 (drop 8 p)),
          hour = 0, minute = 0, second = 0, microsecond = 0\<rparr>"
proof -
  from pat have len: "length p = 10" by (simp add: ymd_pattern_def)
  define y1 y2 y3 y4 m1 m2 d1 d2 where
    "y1 = p ! 0" and "y2 = p ! 1" and "y3 = p ! 2" and "y4 = p ! 3"
    and "m1 = p ! 5" and "m2 = p ! 6" and "d1 = p ! 8" and "d2 = p ! 9"
  note defs = y1_def y2_def y3_def y4_def m1_def m2_def d1_def d2_def
  from pat have p: "p = [y1, y2, y3, y4, CHR ''-'', m1, m2, CHR ''-'', d1, d2]"
    using ten_chars [OF len] by (simp add: ymd_pattern_def defs)
  from pat have dg: "is_digit y1" "is_digit y2" "is_digit y3" "is_digit y4"
    "is_digit m1" "is_digit m2" "is_digit d1" "is_digit d2"
    by (simp_all add: ymd_pattern_def defs)
  have Y: "take 4 p = [y1, y2, y3, y4]" by (subst p) simp
  have M: "take 2 (drop 5 p) = [m1, m2]" by (subst p) simp
  have D: "take 2 (drop 8 p) = [d1, d2]" by (subst p) simp
  from val have v: "valid_date (digits_val [y1, y2, y3, y4]) (digits_val [m1, m2]) (digits_val [d1, d2])"
    by (simp only: Y M D)
  then have mb: "1 \<le> digits_val [m1, m2]" "digits_val [m1, m2] \<le> 12"
    and db: "1 \<le> digits_val [d1, d2]" "digits_val [d1, d2] \<le> days_in_month (digits_val [y1, y2, y3, y4]) (digits_val [m1, m2])"
    by (simp_all add: valid_date_def)
  have "days_in_month (digits_val [y1, y2, y3, y4]) (digits_val [m1, m2]) \<le> 31"
  proof -
    define k where "k = digits_val [m1, m2]"
    from mb have "k = 1 \<or> k = 2 \<or> k = 3 \<or> k = 4 \<or> k = 5 \<or> k = 6 \<or> k = 7 \<or> k = 8
        \<or> k = 9 \<or> k = 10 \<or> k = 11 \<or> k = 12"
      unfolding k_def by arith
    then have "days_in_month (digits_val [y1, y2, y3, y4]) k \<le> 31"
      by (elim disjE) (simp_all add: days_in_month_def)
    then show ?thesis by (simp only: k_def)
  qed
  with db have db': "digits_val [d1, d2] \<le> 31" by simp
  from dg have yd: "y1 \<in> set digits" "y2 \<in> set digits" "y3 \<in> set digits" "y4 \<in> set digits"
    by (simp_all add: is_digit_def)
  obtain tl where re: "ymd_regex p = ([y1, y2, y3, y4], [m1, m2], [d1, d2], []) # tl"
    using ymd_regex_valid [OF yd month_cases [OF dg(5,6) mb] day_cases [OF dg(7,8) db(1) db'] ]
    by (subst (asm) p [symmetric]) blast
  have iy: "py_int [y1, y2, y3, y4] = Inr (int (digits_val [y1, y2, y3, y4]))"
    using dg by (intro py_int_digits) simp_all
  have im: "py_int [m1, m2] = Inr (int (digits_val [m1, m2]))"
    using dg by (intro py_int_digits) simp_all
  have id: "py_int [d1, d2] = Inr (int (digits_val [d1, d2]))"
    using dg by (intro py_int_digits) simp_all
  show ?thesis
    unfolding strptime_ymd_def re Y M D
    using v by (simp add: iy im id)
qed

lemma format_ymd_roundtrip:
  assumes pat: "ymd_pattern p"
  shows "format_ymd \<lparr>year = digits_val (take 4 p), month = digits_val (take 2 (drop 5 p)),
          day = digits_val (take 2 (drop 8 p)),
          hour = 0, minute = 0, second = 0, microsecond = 0\<rparr> = p"
proof -
  from pat have len: "length p = 10" by (simp add: ymd_pattern_def)
  define y1 y2 y3 y4 m1 m2 d1 d2 where
    "y1 = p ! 0" and "y2 = p ! 1" and "y3 = p ! 2" and "y4 = p ! 3"
    and "m1 = p ! 5" and "m2 = p ! 6" and "d1 = p ! 8" and "d2 = p ! 9"
  note defs = y1_def y2_def y3_def y4_def m1_def m2_def d1_def d2_def
  from pat have p: "p = [y1, y2, y3, y4, CHR ''-'', m1, m2, CHR ''-'', d1, d2]"
    using ten_chars [OF len] by (simp add: ymd_pattern_def defs)
  from pat have dg: "is_digit y1" "is_digit y2" "is_digit y3" "is_digit y4"
    "is_digit m1" "is_digit m2" "is_digit d1" "is_digit d2"
    by (simp_all add: ymd_pattern_def defs)
  have Y: "take 4 p = [y1, y2, y3, y4]" by (subst p) simp
  have M: "take 2 (drop 5 p) = [m1, m2]" by (subst p) simp
  have D: "take 2 (drop 8 p) = [d1, d2]" by (subst p) simp
  have zy: "zero_pad 4 (digits_val [y1, y2, y3, y4]) = [y1, y2, y3, y4]"
  proof -
    have "zero_pad (length [y1, y2, y3, y4]) (digits_val [y1, y2, y3, y4]) = [y1, y2, y3, y4]"
      using dg by (intro zero_pad_digits_val) simp_all
    moreover have "length [y1, y2, y3, y4] = 4" by simp
    ultimately show ?thesis by (simp only:)
  qed
  have zm: "zero_pad 2 (digits_val [m1, m2]) = [m1, m2]"
  proof -
    have "zero_pad (length [m1, m2]) (digits_val [m1, m2]) = [m1, m2]"
      using dg by (intro zero_pad_digits_val) simp_all
    moreover have "length [m1, m2] = 2" by simp
    ultimately show ?thesis by (simp only:)
  qed
  have zd: "zero_pad 2 (digits_val [d1, d2]) = [d1, d2]"
  proof -
    have "zero_pad (length [d1, d2]) (digits_val [d1, d2]) = [d1, d2]"
      using dg by (intro zero_pad_digits_val) simp_all
    moreover have "length [d1, d2] = 2" by simp
    ultimately show ?thesis by (simp only:)
  qed
  have "format_ymd \<lparr>year = digits_val (take 4 p), month = digits_val (take 2 (drop 5 p)),
          day = digits_val (take 2 (drop 8 p)),
          hour = 0, minute = 0, second = 0, microsecond = 0\<rparr> =
        [y1, y2, y3, y4, CHR ''-'', m1, m2, CHR ''-'', d1, d2]"
    by (simp add: format_ymd_def Y M D zy zm zd)
  with p show ?thesis by simp
qed

lemma extract_date_valid:
  assumes "valid_ymd_prefix post"
  shows "date_match post = Some (take 10 post)"
    and "\<exists>d. strptime_ymd (take 10 post) = Inr d \<and> format_ymd d = take 10 post"
proof -
  from assms have hp: "has_date_prefix post" by (simp add: valid_ymd_prefix_def)
  then show "date_match post = Some (take 10 post)" by (simp add: date_match_eq)
  from hp have pat: "ymd_pattern (take 10 post)" by (simp add: has_date_prefix_def)
  have sub: "take 4 (take 10 post) = take 4 post"
    "take 2 (drop 5 (take 10 post)) = take 2 (drop 5 post)"
    "take 2 (drop 8 (take 10 post)) = take 2 (drop 8 post)"
    by (simp_all add: drop_take min_def)
  from assms have val: "valid_date (digits_val (take 4 (take 10 post)))
      (digits_val (take 2 (drop 5 (take 10 post)))) (digits_val (take 2 (drop 8 (take 10 post))))"
    by (simp only: sub valid_ymd_prefix_def)
  from strptime_ymd_valid [OF pat val] format_ymd_roundtrip [OF pat]
  show "\<exists>d. strptime_ymd (take 10 post) = Inr d \<and> format_ymd d = take 10 post"
    by blast
qed

text \<open>
  Claim C7. When the first ten characters of every post name are a calendar date
  written \<^verbatim>\<open>YYYY-MM-DD\<close>, \<^verbatim>\<open>extract_dates\<close> returns a date for every post, and
  formatting each date back as \<^verbatim>\<open>YYYY-MM-DD\<close> gives the first ten characters of
  its post name.
\<close>

theorem extract_dates_roundtrip:
  "\<forall>post \<in> set post_list. valid_ymd_prefix post \<Longrightarrow>
   \<exists>dts. extract_dates post_list = Inr dts \<and> map format_ymd dts = map (take 10) post_list"
proof (induction post_list)
  case Nil
  then show ?case by simp
next
  case (Cons post post_list)
  from Cons.prems have v: "valid_ymd_prefix post" by simp
  from extract_date_valid [OF v] obtain d
    where m: "date_match post = Some (take 10 post)"
      and d: "strptime_ymd (take 10 post) = Inr d" "format_ymd d = take 10 post"
    by blast
  from Cons obtain dts
    where dts: "extract_dates post_list = Inr dts" "map format_ymd dts = map (take 10) post_list"
    by auto
  have "extract_dates (post # post_list) = Inr (d # dts)"
    by (simp add: m d(1) dts(1))
  with d(2) dts(2) show ?case by simp
qed

theorem extract_dates_roundtrip_witness:
  "valid_ymd_prefix ''2024-01-05-b.md'' \<and> valid_ymd_prefix ''2024-02-29-leap.md''
   \<and> (\<exists>dts. extract_dates [''2024-01-05-b.md'', ''2024-02-29-leap.md''] = Inr dts
          \<and> map format_ymd dts = [''2024-01-05'', ''2024-02-29''])"
proof -
  have h1: "valid_ymd_prefix ''2024-01-05-b.md''" by code_simp
  have h2: "valid_ymd_prefix ''2024-02-29-leap.md''" by code_simp
  from h1 h2 have h: "\<forall>post \<in> set [''2024-01-05-b.md'', ''2024-02-29-leap.md'']. valid_ymd_prefix post"
    by simp
  from extract_dates_roundtrip [OF h] h1 h2 show ?thesis by simp
qed

subsection \<open>Titles\<close>

lemma readline_Nil_iff: "fst (readline s) = [] \<longleftrightarrow> s = []"
  by (induction s) (auto split: prod.splits)

lemma readline_Nil: "readline [] = ([], [])"
  by simp

lemma split_lines_readline:
  "split_lines s =
     (if fst (readline s) = [] then [] else fst (readline s) # split_lines (snd (readline s)))"
proof (induction s)
  case Nil
  then show ?case by simp
next
  case (Cons c cs)
  show ?case
  proof (cases "c = CHR 0x0A")
    case True
    then show ?thesis by simp
  next
    case False
    obtain l r where lr: "readline cs = (l, r)" by (cases "readline cs")
    show ?thesis
    proof (cases "cs = []")
      case True
      with False show ?thesis by simp
    next
      case ne: False
      then have "l \<noteq> []" using readline_Nil_iff [of cs] lr by simp
      with Cons False lr show ?thesis by simp
    qed
  qed
qed

lemma title_loop_find:
  assumes "cnt \<le> 11"
  shows "case find (py_in ''title:'')
             (take (12 - cnt) (if line = [] then [] else line # split_lines f)) of
           Some l \<Rightarrow> title_loop line cnt f = l
         | None \<Rightarrow> \<not> py_in ''title:'' (title_loop line cnt f)"
  using assms
proof (induction line cnt f rule: title_loop.induct)
  case (1 line cnt f)
  show ?case
  proof (cases "line = []")
    case True
    then show ?thesis by (subst title_loop.simps) simp
  next
    case ne: False
    show ?thesis
    proof (cases "py_in ''title:'' line")
      case True
      have "12 - cnt = Suc (11 - cnt)" using "1.prems" by arith
      then have "take (12 - cnt) (line # split_lines f) = line # take (11 - cnt) (split_lines f)"
        by simp
      with ne True show ?thesis by (subst title_loop.simps) simp
    next
      case nt: False
      show ?thesis
      proof (cases "cnt > 10")
        case True
        with "1.prems" have "cnt = 11" by simp
        with ne nt show ?thesis by (subst title_loop.simps) simp
      next
        case False
        then have c: "cnt + 1 \<le> 11" by simp
        have "12 - cnt = Suc (12 - (cnt + 1))" using False by arith
        then have tk: "take (12 - cnt) (line # split_lines f) = line # take (12 - (cnt + 1)) (split_lines f)"
          by simp
        have step: "title_loop line cnt f = title_loop (fst (readline f)) (cnt + 1) (snd (readline f))"
          using ne nt False by (subst title_loop.simps) simp
        have sl: "split_lines f = (if fst (readline f) = [] then []
              else fst (readline f) # split_lines (snd (readline f)))"
          by (rule split_lines_readline)
        from "1.IH" [OF ne _ c] nt False
        have IH: "case find (py_in ''title:'') (take (12 - (cnt + 1)) (split_lines f)) of
           Some l \<Rightarrow> title_loop (fst (readline f)) (cnt + 1) (snd (readline f)) = l
         | None \<Rightarrow> \<not> py_in ''title:'' (title_loop (fst (readline f)) (cnt + 1) (snd (readline f)))"
          by (simp add: sl [symmetric])
        show ?thesis using ne nt IH by (simp only: tk step if_False find.simps)
      qed
    qed
  qed
qed

lemma extract_title_eq:
  assumes "files fs (os_path_join base_dir post) = Some content"
  shows "extract_title fs post base_dir =
     Inr (case find (py_in ''title:'') (take 12 (split_lines content)) of
            None \<Rightarrow> re_sub ''title: '' [] (strip ''UH OH!'')
          | Some line \<Rightarrow> re_sub ''title: '' [] (strip line))"
proof -
  let ?r = "title_loop (fst (readline content)) 0 (snd (readline content))"
  have sl: "(if fst (readline content) = [] then []
       else fst (readline content) # split_lines (snd (readline content))) = split_lines content"
    by (rule split_lines_readline [symmetric])
  have tl: "case find (py_in ''title:'') (take 12 (split_lines content)) of
           Some l \<Rightarrow> ?r = l | None \<Rightarrow> \<not> py_in ''title:'' ?r"
    using title_loop_find [of 0 "fst (readline content)" "snd (readline content)"]
    by (simp only: sl) simp
  show ?thesis
  proof (cases "find (py_in ''title:'') (take 12 (split_lines content))")
    case None
    with tl have "\<not> py_in ''title:'' ?r" by simp
    with None assms show ?thesis by (simp add: extract_title_def Let_def)
  next
    case (Some l)
    with tl have r: "?r = l" by simp
    from Some have "py_in ''title:'' l" by (auto simp: find_Some_iff)
    with Some assms r show ?thesis by (simp add: extract_title_def Let_def)
  qed
qed

lemma sentinel_unchanged: "re_sub ''title: '' [] (strip ''UH OH!'') = ''UH OH!''"
  by code_simp

lemma re_sub_Nil: "re_sub pat [] [] = []"
  by (subst re_sub.simps) simp

lemma re_sub_no_prefix:
  "pat \<noteq> [] \<Longrightarrow> \<not> prefix pat (c # s) \<Longrightarrow> re_sub pat [] (c # s) = c # re_sub pat [] s"
  by (subst re_sub.simps) simp

lemma re_sub_prefix:
  "pat \<noteq> [] \<Longrightarrow> re_sub pat [] (pat @ s) = re_sub pat [] s"
  by (subst re_sub.simps) simp

lemma re_sub_absent:
  "pat \<noteq> [] \<Longrightarrow> \<not> py_in pat s \<Longrightarrow> re_sub pat [] s = s"
proof (induction s)
  case Nil
  then show ?case by (simp add: re_sub_Nil)
next
  case (Cons c cs)
  then show ?case by (simp add: re_sub_no_prefix)
qed

lemma prefix_Cons_append:
  "prefix (c # p) (x @ r) \<longleftrightarrow>
     (x = [] \<and> prefix (c # p) r) \<or> (\<exists>x'. x = c # x' \<and> prefix p (x' @ r))"
  by (cases x) auto

lemma marker_border_free:
  assumes "prefix ''title: '' (x @ ''title: '' @ b)" and "x \<noteq> []"
  shows "prefix ''title: '' x"
  using assms by (auto simp: prefix_Cons_append)

lemma re_sub_marker_step:
  "\<not> py_in ''title: '' a \<Longrightarrow>
   re_sub ''title: '' [] (a @ ''title: '' @ b) = a @ re_sub ''title: '' [] b"
proof (induction a)
  case Nil
  have "re_sub ''title: '' [] (''title: '' @ b) = re_sub ''title: '' [] b"
    by (rule re_sub_prefix) simp
  then show ?case by (simp only: append_Nil)
next
  case (Cons c a)
  from Cons.prems have np: "\<not> prefix ''title: '' (c # a)" and na: "\<not> py_in ''title: '' a"
    by simp_all
  have eq: "(c # a) @ ''title: '' @ b = c # (a @ ''title: '' @ b)" by simp
  have "\<not> prefix ''title: '' (c # (a @ ''title: '' @ b))"
    using marker_border_free [of "c # a" b] np unfolding eq by blast
  then have step: "re_sub ''title: '' [] (c # (a @ ''title: '' @ b)) =
      c # re_sub ''title: '' [] (a @ ''title: '' @ b)"
    by (intro re_sub_no_prefix) simp_all
  show ?case unfolding eq step Cons.IH [OF na] by simp
qed

lemma re_sub_join:
  "\<forall>s \<in> set segs. \<not> py_in ''title: '' s \<Longrightarrow>
   re_sub ''title: '' [] (py_join ''title: '' segs) = concat segs"
proof (induction "''title: ''" segs rule: py_join.induct)
  case 1
  then show ?case by (simp add: re_sub_Nil)
next
  case (2 x)
  then show ?case by (simp add: re_sub_absent)
next
  case (3 x y rest)
  then show ?case by (simp add: re_sub_marker_step del: append.simps)
qed

lemma title_loop_eof:
  assumes "cnt + length (if line = [] then [] else line # split_lines f) \<le> 11"
    and "\<forall>l \<in> set (if line = [] then [] else line # split_lines f). \<not> py_in ''title:'' l"
  shows "title_loop line cnt f = []"
  using assms
proof (induction line cnt f rule: title_loop.induct)
  case (1 line cnt f)
  show ?case
  proof (cases "line = []")
    case True
    then show ?thesis by (subst title_loop.simps) simp
  next
    case ne: False
    with "1.prems" have nt: "\<not> py_in ''title:'' line" and c: "\<not> cnt > 10"
      and len: "(cnt + 1) + length (split_lines f) \<le> 11"
      and rest: "\<forall>l \<in> set (split_lines f). \<not> py_in ''title:'' l"
      by simp_all
    have sl: "(if fst (readline f) = [] then []
              else fst (readline f) # split_lines (snd (readline f))) = split_lines f"
      by (rule split_lines_readline [symmetric])
    have "title_loop (fst (readline f)) (cnt + 1) (snd (readline f)) = []"
      using "1.IH" [OF ne _] nt c len rest by (simp only: sl) simp
    with ne nt c show ?thesis by (subst title_loop.simps) simp
  qed
qed

text \<open>
  Claim C2, amended. The scan covers the first twelve lines of the post. When one
  of them contains \<^verbatim>\<open>title:\<close>, the result is the first such line, trimmed of
  whitespace, with every occurrence of \<^verbatim>\<open>title: \<close> (the marker and one space)
  deleted; when the trimmed line starts with \<^verbatim>\<open>title: \<close> and has no further
  occurrence, that is the text behind the marker. When none of the first twelve
  lines contains \<^verbatim>\<open>title:\<close>, the result is \<^verbatim>\<open>UH OH!\<close>.
\<close>

theorem extract_title_first_twelve_lines:
  "files fs (os_path_join base_dir post) = Some content \<Longrightarrow>
   extract_title fs post base_dir =
     Inr (case find (py_in ''title:'') (take 12 (split_lines content)) of
            None \<Rightarrow> ''UH OH!''
          | Some line \<Rightarrow> re_sub ''title: '' [] (strip line))
   \<and> (\<forall>line rest. find (py_in ''title:'') (take 12 (split_lines content)) = Some line
          \<and> strip line = ''title: '' @ rest \<and> \<not> py_in ''title: '' rest
        \<longrightarrow> extract_title fs post base_dir = Inr rest)"
proof -
  assume f: "files fs (os_path_join base_dir post) = Some content"
  have 1: "extract_title fs post base_dir =
     Inr (case find (py_in ''title:'') (take 12 (split_lines content)) of
            None \<Rightarrow> ''UH OH!''
          | Some line \<Rightarrow> re_sub ''title: '' [] (strip line))"
    unfolding extract_title_eq [OF f] by (simp only: sentinel_unchanged)
  have 2: "\<forall>line rest. find (py_in ''title:'') (take 12 (split_lines content)) = Some line
          \<and> strip line = ''title: '' @ rest \<and> \<not> py_in ''title: '' rest
        \<longrightarrow> extract_title fs post base_dir = Inr rest"
  proof (intro allI impI, elim conjE)
    fix line rest
    assume a: "find (py_in ''title:'') (take 12 (split_lines content)) = Some line"
      and b: "strip line = ''title: '' @ rest" and c: "\<not> py_in ''title: '' rest"
    have "re_sub ''title: '' [] (''title: '' @ rest) = re_sub ''title: '' [] rest"
      by (rule re_sub_prefix) simp
    also have "\<dots> = rest" using c by (intro re_sub_absent) simp_all
    finally have r: "re_sub ''title: '' [] (strip line) = rest" by (simp only: b)
    show "extract_title fs post base_dir = Inr rest"
      by (simp only: 1 a option.case r)
  qed
  from 1 2 show ?thesis by (rule conjI)
qed

theorem extract_title_first_twelve_lines_witness:
  "extract_title
     \<lparr>dirs = Map.empty,
      files = [''_posts/2024-01-01-a.md'' \<mapsto>
                 ''---\<newline>layout: post\<newline>title: My Post\<newline>---\<newline>'']\<rparr>
     ''2024-01-01-a.md'' ''_posts/'' = Inr ''My Post''"
proof -
  let ?c = "''---\<newline>layout: post\<newline>title: My Post\<newline>---\<newline>''"
  let ?fs = "\<lparr>dirs = Map.empty, files = [''_posts/2024-01-01-a.md'' \<mapsto> ?c]\<rparr>"
  have h: "files ?fs (os_path_join ''_posts/'' ''2024-01-01-a.md'') = Some ?c"
    by (simp add: os_path_join_def suffix_to_prefix)
  have e: "(case find (py_in ''title:'') (take 12 (split_lines ?c)) of
            None \<Rightarrow> ''UH OH!''
          | Some line \<Rightarrow> re_sub ''title: '' [] (strip line)) = ''My Post''"
    by code_simp
  from extract_title_first_twelve_lines [OF h, THEN conjunct1]
  show ?thesis unfolding e .
qed

text \<open>
  Claim C2 as written fails in both halves. A post whose first eleven lines have
  no \<^verbatim>\<open>title:\<close> and whose twelfth line is \<^verbatim>\<open>title: Late\<close> gets the title \<^verbatim>\<open>Late\<close>,
  not the sentinel. A line \<^verbatim>\<open>title:NoSpace\<close> is returned whole, marker included,
  where the claim has \<^verbatim>\<open>NoSpace\<close>.
\<close>

theorem extract_title_counterexample:
  "find (py_in ''title:'')
     (take 11 (split_lines
        ''1\<newline>2\<newline>3\<newline>4\<newline>5\<newline>6\<newline>7\<newline>8\<newline>9\<newline>10\<newline>11\<newline>title: Late\<newline>'')) = None
   \<and> extract_title
       \<lparr>dirs = Map.empty,
        files = [''_posts/late.md'' \<mapsto>
          ''1\<newline>2\<newline>3\<newline>4\<newline>5\<newline>6\<newline>7\<newline>8\<newline>9\<newline>10\<newline>11\<newline>title: Late\<newline>'']\<rparr>
       ''late.md'' ''_posts/'' = Inr ''Late''
   \<and> marker_stripped ''title:NoSpace\<newline>'' = ''NoSpace''
   \<and> extract_title
       \<lparr>dirs = Map.empty, files = [''_posts/t.md'' \<mapsto> ''title:NoSpace\<newline>'']\<rparr>
       ''t.md'' ''_posts/'' = Inr ''title:NoSpace''"
  by code_simp

text \<open>
  Claim C9. Take the matched line, trimmed of whitespace, and cut it at the
  occurrences of \<^verbatim>\<open>title: \<close> (marker and one space) into pieces that do not contain
  it. The result is the pieces put together: every occurrence is deleted, also
  those inside the title text. With a single piece nothing is deleted, so a marker
  \<^verbatim>\<open>title:\<close> that is not followed by a space stays in the result.
\<close>

theorem extract_title_deletes_every_marker:
  assumes "files fs (os_path_join base_dir post) = Some content"
    and "find (py_in ''title:'') (take 12 (split_lines content)) = Some line"
    and "strip line = py_join ''title: '' segs"
    and "\<forall>s \<in> set segs. \<not> py_in ''title: '' s"
  shows "extract_title fs post base_dir = Inr (concat segs)"
  unfolding extract_title_eq [OF assms(1)] assms(2) option.case assms(3)
  by (simp only: re_sub_join [OF assms(4)])

theorem extract_title_deletes_every_marker_witness:
  "extract_title
     \<lparr>dirs = Map.empty, files = [''_posts/a.md'' \<mapsto> ''---\<newline>title: A title: B \<newline>'']\<rparr>
     ''a.md'' ''_posts/'' = Inr ''A B''
   \<and> extract_title
     \<lparr>dirs = Map.empty, files = [''_posts/t.md'' \<mapsto> ''title:NoSpace\<newline>'']\<rparr>
     ''t.md'' ''_posts/'' = Inr ''title:NoSpace''"
proof
  let ?c = "''---\<newline>title: A title: B \<newline>''"
  let ?fs = "\<lparr>dirs = Map.empty, files = [''_posts/a.md'' \<mapsto> ?c]\<rparr>"
  have h1: "files ?fs (os_path_join ''_posts/'' ''a.md'') = Some ?c"
    by (simp add: os_path_join_def suffix_to_prefix)
  have h2: "find (py_in ''title:'') (take 12 (split_lines ?c)) = Some ''title: A title: B \<newline>''"
    by code_simp
  have h3: "strip ''title: A title: B \<newline>'' = py_join ''title: '' [ [], ''A '', ''B'']"
    by code_simp
  have h4: "\<forall>s \<in> set [ [], ''A '', ''B'']. \<not> py_in ''title: '' s"
    by simp
  from extract_title_deletes_every_marker [OF h1 h2 h3 h4]
  show "extract_title ?fs ''a.md'' ''_posts/'' = Inr ''A B''" by simp
next
  let ?c = "''title:NoSpace\<newline>''"
  let ?fs = "\<lparr>dirs = Map.empty, files = [''_posts/t.md'' \<mapsto> ?c]\<rparr>"
  have h1: "files ?fs (os_path_join ''_posts/'' ''t.md'') = Some ?c"
    by (simp add: os_path_join_def suffix_to_prefix)
  have h2: "find (py_in ''title:'') (take 12 (split_lines ?c)) = Some ''title:NoSpace\<newline>''"
    by code_simp
  have h3: "strip ''title:NoSpace\<newline>'' = py_join ''title: '' [''title:NoSpace'']"
    by code_simp
  have h4: "\<forall>s \<in> set [''title:NoSpace'']. \<not> py_in ''title: '' s"
    by simp
  from extract_title_deletes_every_marker [OF h1 h2 h3 h4]
  show "extract_title ?fs ''t.md'' ''_posts/'' = Inr ''title:NoSpace''" by simp
qed

text \<open>
  Claim C10. For a post of at most eleven lines, none of which contains
  \<^verbatim>\<open>title:\<close>, the loop is left at the end of the file with the empty line, and
  \<^verbatim>\<open>extract_title\<close> returns \<^verbatim>\<open>UH OH!\<close>. The empty file is such a post.
\<close>

theorem extract_title_end_of_file:
  assumes "files fs (os_path_join base_dir post) = Some content"
    and "length (split_lines content) \<le> 11"
    and "\<forall>line \<in> set (split_lines content). \<not> py_in ''title:'' line"
  shows "title_loop (fst (readline content)) 0 (snd (readline content)) = []
       \<and> extract_title fs post base_dir = Inr ''UH OH!''"
proof
  have sl: "(if fst (readline content) = [] then []
       else fst (readline content) # split_lines (snd (readline content))) = split_lines content"
    by (rule split_lines_readline [symmetric])
  show "title_loop (fst (readline content)) 0 (snd (readline content)) = []"
  proof (rule title_loop_eof)
    show "0 + length (if fst (readline content) = [] then []
       else fst (readline content) # split_lines (snd (readline content))) \<le> 11"
      using assms(2) unfolding sl by simp
    show "\<forall>l \<in> set (if fst (readline content) = [] then []
       else fst (readline content) # split_lines (snd (readline content))). \<not> py_in ''title:'' l"
      using assms(3) unfolding sl .
  qed
  have "find (py_in ''title:'') (take 12 (split_lines content)) = None"
    using assms(3) by (auto simp: find_None_iff dest: in_set_takeD)
  then show "extract_title fs post base_dir = Inr ''UH OH!''"
    unfolding extract_title_eq [OF assms(1)] by (simp add: sentinel_unchanged)
qed

theorem extract_title_end_of_file_witness:
  "extract_title \<lparr>dirs = Map.empty, files = [''_posts/empty.md'' \<mapsto> '''']\<rparr>
     ''empty.md'' ''_posts/'' = Inr ''UH OH!''
   \<and> title_loop (fst (readline '''')) 0 (snd (readline '''')) = []"
proof -
  let ?fs = "\<lparr>dirs = Map.empty, files = [''_posts/empty.md'' \<mapsto> '''']\<rparr>"
  have h1: "files ?fs (os_path_join ''_posts/'' ''empty.md'') = Some ''''"
    by (simp add: os_path_join_def suffix_to_prefix)
  have h2: "length (split_lines '''') \<le> 11" by simp
  have h3: "\<forall>line \<in> set (split_lines ''''). \<not> py_in ''title:'' line" by simp
  from extract_title_end_of_file [OF h1 h2 h3] show ?thesis by simp
qed

end
